theory Spec2Isabelle
  imports Main "HOL-Library.Word"
begin

section \<open>The multi-core FIFO (MCF.c, MCF.h)\<close>

subsection \<open>Data model\<close>

text \<open>
  Pointers are addresses; \<open>NULL\<close> is address 0. The memory the channel works on is a
  typed store: one heap of \<open>MCF_t\<close> instances, one heap of \<open>uint16_t\<close> cursor cells and
  one heap of \<open>MCF_Message_t\<close> slots, the slot heap addressed in units of one message, so
  that \<open>msgBuf[i]\<close> is the slot at \<open>msgBuf + i\<close>. Two pointers of the same heap may be
  equal, so the head and the tail pointer of an instance can alias, and two instances can
  share cursors and buffer as the two cores do.
\<close>

type_synonym addr = nat
type_synonym uint16_t = "16 word"
type_synonym int16_t = "16 word"
type_synonym uint32_t = "32 word"
type_synonym int32_t = "32 word"

text \<open>A \<open>float\<close> is carried as its 32-bit image; the channel only copies it.\<close>

type_synonym float = "32 word"

definition NULL :: addr where
  "NULL = 0"

text \<open>
  The anonymous union of \<open>MCF_Message_t\<close>, as the member that was stored last. The signed
  members hold two's complement words (read them with \<open>sint\<close>).
\<close>

datatype payload =
    F32 float
  | U16 uint16_t
  | U32 uint32_t
  | I16 int16_t
  | I32 int32_t

record MCF_Message_t =
  msgID :: uint16_t
  data :: payload

record MCF_t =
  msgBuf :: addr
  head :: addr
  tail :: addr
  msgBufSize :: uint16_t
  msgParser :: addr

text \<open>
  A call of the parser is observable as an entry of the log \<open>parsed\<close>: the function
  called, the pointer it was given, and the message found there at the time of the call.
  The parser is the caller's code; as the interface demands, it neither changes the
  message nor the cursors, so its own effect is outside the store.
\<close>

type_synonym call = "addr \<times> addr \<times> MCF_Message_t"

record state =
  instances :: "addr \<Rightarrow> MCF_t"
  cursors :: "addr \<Rightarrow> uint16_t"
  slots :: "addr \<Rightarrow> MCF_Message_t"
  parsed :: "call list"

text \<open>
  \<open>AssertionFailed\<close> is a failed \<open>assert\<close>, which aborts the program; \<open>NullCall\<close> is the
  call through a null \<open>msgParser\<close>, which \<open>MCF_receive\<close> does not guard against.
\<close>

datatype error = AssertionFailed | NullCall

subsection \<open>Configuration\<close>

definition MCF_init_TX :: "addr \<Rightarrow> addr \<Rightarrow> addr \<Rightarrow> addr \<Rightarrow> uint16_t \<Rightarrow> state \<Rightarrow> error + state" where
  "MCF_init_TX Instance headp tailp MsgBuf BufSize s =
     (if \<not> (NULL \<noteq> Instance \<and> NULL \<noteq> headp \<and> NULL \<noteq> tailp \<and> NULL \<noteq> MsgBuf \<and> 0 < BufSize)
      then Inl AssertionFailed
      else
        let s1 = s\<lparr>instances := (instances s)(Instance := (instances s Instance)
                     \<lparr>head := headp, tail := tailp, msgBuf := MsgBuf, msgBufSize := BufSize\<rparr>)\<rparr>
        in Inr (s1\<lparr>cursors := (cursors s1)(head (instances s1 Instance) := 0)\<rparr>))"

definition MCF_init_RX :: "addr \<Rightarrow> addr \<Rightarrow> addr \<Rightarrow> addr \<Rightarrow> uint16_t \<Rightarrow> addr \<Rightarrow> state \<Rightarrow> error + state" where
  "MCF_init_RX Instance headp tailp MsgBuf BufSize parser s =
     (if \<not> (NULL \<noteq> Instance \<and> NULL \<noteq> headp \<and> NULL \<noteq> tailp \<and> NULL \<noteq> MsgBuf \<and> 0 < BufSize
             \<and> NULL \<noteq> parser)
      then Inl AssertionFailed
      else
        let s1 = s\<lparr>instances := (instances s)(Instance := (instances s Instance)
                     \<lparr>head := headp, tail := tailp, msgBuf := MsgBuf, msgBufSize := BufSize,
                      msgParser := parser\<rparr>)\<rparr>
        in Inr (s1\<lparr>cursors := (cursors s1)(tail (instances s1 Instance) := 0)\<rparr>))"

definition MCF_init_RXTX :: "addr \<Rightarrow> addr \<Rightarrow> addr \<Rightarrow> addr \<Rightarrow> uint16_t \<Rightarrow> addr \<Rightarrow> state \<Rightarrow> error + state" where
  "MCF_init_RXTX Instance headp tailp MsgBuf BufSize parser s =
     (if \<not> (NULL \<noteq> Instance \<and> NULL \<noteq> headp \<and> NULL \<noteq> tailp \<and> NULL \<noteq> MsgBuf \<and> 0 < BufSize
             \<and> NULL \<noteq> parser)
      then Inl AssertionFailed
      else
        let s1 = s\<lparr>instances := (instances s)(Instance := (instances s Instance)
                     \<lparr>head := headp, tail := tailp, msgBuf := MsgBuf, msgBufSize := BufSize,
                      msgParser := parser\<rparr>)\<rparr>;
            s2 = s1\<lparr>cursors := (cursors s1)(tail (instances s1 Instance) := 0)\<rparr>
        in Inr (s2\<lparr>cursors := (cursors s2)(head (instances s2 Instance) := 0)\<rparr>))"

subsection \<open>Send\<close>

text \<open>
  The local \<open>head\<close> is a \<open>uint16_t\<close>; in \<open>head >= Instance->msgBufSize - 1\<close> both operands
  are promoted to \<open>int\<close>, so the subtraction does not wrap and a size of 0 gives \<open>-1\<close>.
  Each variant stores its union member, then the identifier, then publishes the cursor.
\<close>

definition MCF_send_u16 :: "addr \<Rightarrow> uint16_t \<Rightarrow> uint16_t \<Rightarrow> state \<Rightarrow> error + state" where
  "MCF_send_u16 Instance mid v s =
     (if Instance = NULL then Inl AssertionFailed
      else
        let I = instances s Instance;
            h0 = cursors s (head I);
            h = (if uint (msgBufSize I) - 1 \<le> uint h0 then 0 else h0 + 1);
            a = msgBuf I + unat h;
            s1 = s\<lparr>slots := (slots s)(a := (slots s a)\<lparr>data := U16 v\<rparr>)\<rparr>;
            s2 = s1\<lparr>slots := (slots s1)(a := (slots s1 a)\<lparr>msgID := mid\<rparr>)\<rparr>
        in Inr (s2\<lparr>cursors := (cursors s2)(head I := h)\<rparr>))"

definition MCF_send_i16 :: "addr \<Rightarrow> uint16_t \<Rightarrow> int16_t \<Rightarrow> state \<Rightarrow> error + state" where
  "MCF_send_i16 Instance mid v s =
     (if Instance = NULL then Inl AssertionFailed
      else
        let I = instances s Instance;
            h0 = cursors s (head I);
            h = (if uint (msgBufSize I) - 1 \<le> uint h0 then 0 else h0 + 1);
            a = msgBuf I + unat h;
            s1 = s\<lparr>slots := (slots s)(a := (slots s a)\<lparr>data := I16 v\<rparr>)\<rparr>;
            s2 = s1\<lparr>slots := (slots s1)(a := (slots s1 a)\<lparr>msgID := mid\<rparr>)\<rparr>
        in Inr (s2\<lparr>cursors := (cursors s2)(head I := h)\<rparr>))"

definition MCF_send_u32 :: "addr \<Rightarrow> uint16_t \<Rightarrow> uint32_t \<Rightarrow> state \<Rightarrow> error + state" where
  "MCF_send_u32 Instance mid v s =
     (if Instance = NULL then Inl AssertionFailed
      else
        let I = instances s Instance;
            h0 = cursors s (head I);
            h = (if uint (msgBufSize I) - 1 \<le> uint h0 then 0 else h0 + 1);
            a = msgBuf I + unat h;
            s1 = s\<lparr>slots := (slots s)(a := (slots s a)\<lparr>data := U32 v\<rparr>)\<rparr>;
            s2 = s1\<lparr>slots := (slots s1)(a := (slots s1 a)\<lparr>msgID := mid\<rparr>)\<rparr>
        in Inr (s2\<lparr>cursors := (cursors s2)(head I := h)\<rparr>))"

definition MCF_send_i32 :: "addr \<Rightarrow> uint16_t \<Rightarrow> int32_t \<Rightarrow> state \<Rightarrow> error + state" where
  "MCF_send_i32 Instance mid v s =
     (if Instance = NULL then Inl AssertionFailed
      else
        let I = instances s Instance;
            h0 = cursors s (head I);
            h = (if uint (msgBufSize I) - 1 \<le> uint h0 then 0 else h0 + 1);
            a = msgBuf I + unat h;
            s1 = s\<lparr>slots := (slots s)(a := (slots s a)\<lparr>data := I32 v\<rparr>)\<rparr>;
            s2 = s1\<lparr>slots := (slots s1)(a := (slots s1 a)\<lparr>msgID := mid\<rparr>)\<rparr>
        in Inr (s2\<lparr>cursors := (cursors s2)(head I := h)\<rparr>))"

definition MCF_send_f32 :: "addr \<Rightarrow> uint16_t \<Rightarrow> float \<Rightarrow> state \<Rightarrow> error + state" where
  "MCF_send_f32 Instance mid v s =
     (if Instance = NULL then Inl AssertionFailed
      else
        let I = instances s Instance;
            h0 = cursors s (head I);
            h = (if uint (msgBufSize I) - 1 \<le> uint h0 then 0 else h0 + 1);
            a = msgBuf I + unat h;
            s1 = s\<lparr>slots := (slots s)(a := (slots s a)\<lparr>data := F32 v\<rparr>)\<rparr>;
            s2 = s1\<lparr>slots := (slots s1)(a := (slots s1 a)\<lparr>msgID := mid\<rparr>)\<rparr>
        in Inr (s2\<lparr>cursors := (cursors s2)(head I := h)\<rparr>))"

subsection \<open>Receive\<close>

text \<open>
  The drain loop reads both cursors afresh in every iteration. The increment of the
  \<open>uint16_t\<close> tail cell wraps at \<open>2 ^ 16\<close>. The loop need not end (a head cursor outside
  the buffer is never met by the tail), so not returning is the value \<open>None\<close>.
\<close>

partial_function (option) receive_loop :: "addr \<Rightarrow> state \<Rightarrow> (error + state) option" where
  "receive_loop Instance s =
     (let I = instances s Instance in
      if cursors s (head I) \<noteq> cursors s (tail I) then
        (let s1 = s\<lparr>cursors := (cursors s)(tail I := cursors s (tail I) + 1)\<rparr>;
             s2 = (if msgBufSize I \<le> cursors s1 (tail I)
                   then s1\<lparr>cursors := (cursors s1)(tail I := 0)\<rparr> else s1);
             a = msgBuf I + unat (cursors s2 (tail I))
         in if msgParser I = NULL then Some (Inl NullCall)
            else receive_loop Instance (s2\<lparr>parsed := parsed s2 @ [(msgParser I, a, slots s2 a)]\<rparr>))
      else Some (Inr s))"

declare receive_loop.simps [code]

definition MCF_receive :: "addr \<Rightarrow> state \<Rightarrow> (error + state) option" where
  "MCF_receive Instance s =
     (if Instance = NULL then Some (Inl AssertionFailed) else receive_loop Instance s)"

subsection \<open>Programs over the channel\<close>

text \<open>
  \<open>MCF_send\<close> picks the send variant whose parameter type is the member the message
  carries, so that a statement about \<open>MCF_send\<close> is one about all five variants.
\<close>

definition MCF_send :: "addr \<Rightarrow> MCF_Message_t \<Rightarrow> state \<Rightarrow> error + state" where
  "MCF_send Instance m s =
     (case data m of
        F32 v \<Rightarrow> MCF_send_f32 Instance (msgID m) v s
      | U16 v \<Rightarrow> MCF_send_u16 Instance (msgID m) v s
      | U32 v \<Rightarrow> MCF_send_u32 Instance (msgID m) v s
      | I16 v \<Rightarrow> MCF_send_i16 Instance (msgID m) v s
      | I32 v \<Rightarrow> MCF_send_i32 Instance (msgID m) v s)"

text \<open>A driving loop is a list of calls on one instance; it stops at the first error.\<close>

datatype op = Send MCF_Message_t | Receive

fun exec :: "addr \<Rightarrow> op \<Rightarrow> state \<Rightarrow> (error + state) option" where
  "exec Instance (Send m) s = Some (MCF_send Instance m s)"
| "exec Instance Receive s = MCF_receive Instance s"

fun run :: "addr \<Rightarrow> op list \<Rightarrow> state \<Rightarrow> (error + state) option" where
  "run Instance [] s = Some (Inr s)"
| "run Instance (x # xs) s =
     (case exec Instance x s of
        Some (Inr s') \<Rightarrow> run Instance xs s'
      | r \<Rightarrow> r)"

subsection \<open>Reading a channel state\<close>

text \<open>The forward circular distance from \<open>t\<close> to \<open>h\<close> in a ring of \<open>N\<close> slots.\<close>

definition distance :: "uint16_t \<Rightarrow> uint16_t \<Rightarrow> uint16_t \<Rightarrow> nat" where
  "distance N h t = nat ((uint h - uint t) mod uint N)"

definition pending :: "state \<Rightarrow> addr \<Rightarrow> nat" where
  "pending s p = (let I = instances s p
     in distance (msgBufSize I) (cursors s (head I)) (cursors s (tail I)))"

definition in_range :: "state \<Rightarrow> addr \<Rightarrow> bool" where
  "in_range s p = (let I = instances s p
     in cursors s (head I) < msgBufSize I \<and> cursors s (tail I) < msgBufSize I)"

text \<open>The address of the slot \<open>k\<close> places after the tail cursor.\<close>

definition slot_after :: "state \<Rightarrow> addr \<Rightarrow> nat \<Rightarrow> addr" where
  "slot_after s p k = (let I = instances s p
     in msgBuf I + (unat (cursors s (tail I)) + k) mod unat (msgBufSize I))"

text \<open>The parser calls that drain the pending slots, oldest first.\<close>

definition drained :: "state \<Rightarrow> addr \<Rightarrow> call list" where
  "drained s p =
     map (\<lambda>k. (msgParser (instances s p), slot_after s p k, slots s (slot_after s p k)))
       [1..<Suc (pending s p)]"

text \<open>The pending messages, oldest first.\<close>

definition queue :: "state \<Rightarrow> addr \<Rightarrow> MCF_Message_t list" where
  "queue s p = map (\<lambda>k. slots s (slot_after s p k)) [1..<Suc (pending s p)]"

text \<open>What a call log shows of each call: the function and the message.\<close>

definition shown :: "call list \<Rightarrow> (addr \<times> MCF_Message_t) list" where
  "shown cs = map (\<lambda>c. (fst c, snd (snd c))) cs"

text \<open>The head index a send computes from the capacity and the old head.\<close>

definition next_head :: "uint16_t \<Rightarrow> uint16_t \<Rightarrow> uint16_t" where
  "next_head N h0 = (if uint N - 1 \<le> uint h0 then 0 else h0 + 1)"

text \<open>The state the five send variants share as their result.\<close>

definition send_effect :: "addr \<Rightarrow> MCF_Message_t \<Rightarrow> state \<Rightarrow> state" where
  "send_effect Instance m s =
     (let I = instances s Instance;
          h = next_head (msgBufSize I) (cursors s (head I))
      in s\<lparr>slots := (slots s)(msgBuf I + unat h := m), cursors := (cursors s)(head I := h)\<rparr>)"

subsection \<open>The queue the specification describes\<close>

text \<open>
  The specification's reading of a driving loop: a send appends to the queue of pending
  messages, a drain hands the whole queue to the parser in order. \<open>delivered q ops\<close> is
  what the parser is handed by \<open>ops\<close> when \<open>q\<close> is pending at the start, and
  \<open>fits N n ops\<close> says that, with \<open>n\<close> messages pending at the start, never more than
  \<open>N - 1\<close> messages are pending.
\<close>

fun delivered :: "MCF_Message_t list \<Rightarrow> op list \<Rightarrow> MCF_Message_t list" where
  "delivered q [] = []"
| "delivered q (Send m # ops) = delivered (q @ [m]) ops"
| "delivered q (Receive # ops) = q @ delivered [] ops"

fun fits :: "nat \<Rightarrow> nat \<Rightarrow> op list \<Rightarrow> bool" where
  "fits N n [] = True"
| "fits N n (Send m # ops) = (Suc n < N \<and> fits N (Suc n) ops)"
| "fits N n (Receive # ops) = fits N 0 ops"

subsection \<open>Results of a call\<close>

text \<open>
  \<open>sent Instance s mid pl r\<close>: the call returned, the head cursor of the instance is one
  place further round the ring than in \<open>s\<close>, and the slot it now names holds the
  identifier \<open>mid\<close> and the union member \<open>pl\<close>.
\<close>

definition sent :: "addr \<Rightarrow> state \<Rightarrow> uint16_t \<Rightarrow> payload \<Rightarrow> error + state \<Rightarrow> bool" where
  "sent Instance s mid pl r =
     (case r of
        Inl e \<Rightarrow> False
      | Inr s' \<Rightarrow>
          let I = instances s Instance;
              h' = cursors s' (head I);
              a = msgBuf I + unat h'
          in unat h' = (unat (cursors s (head I)) + 1) mod unat (msgBufSize I)
             \<and> data (slots s' a) = pl \<and> msgID (slots s' a) = mid)"

text \<open>
  \<open>only_head_slot Instance s r\<close>: the call returned; the tail cursor, the capacity and the
  parser of the instance are as in \<open>s\<close>, and so is every slot other than the one a place
  after the old head; indeed nothing but that slot and the head cursor cell was written.
\<close>

definition only_head_slot :: "addr \<Rightarrow> state \<Rightarrow> error + state \<Rightarrow> bool" where
  "only_head_slot Instance s r =
     (case r of
        Inl e \<Rightarrow> False
      | Inr s' \<Rightarrow>
          let I = instances s Instance;
              a = msgBuf I + (unat (cursors s (head I)) + 1) mod unat (msgBufSize I)
          in cursors s' (tail I) = cursors s (tail I)
             \<and> msgBufSize (instances s' Instance) = msgBufSize I
             \<and> msgParser (instances s' Instance) = msgParser I
             \<and> (\<forall>b. b \<noteq> a \<longrightarrow> slots s' b = slots s b)
             \<and> (\<forall>c. c \<noteq> head I \<longrightarrow> cursors s' c = cursors s c)
             \<and> instances s' = instances s
             \<and> parsed s' = parsed s)"

text \<open>\<open>returns_in_range Instance r\<close>: the call returned with both cursors inside the buffer.\<close>

definition returns_in_range :: "addr \<Rightarrow> error + state \<Rightarrow> bool" where
  "returns_in_range Instance r = (case r of Inl e \<Rightarrow> False | Inr s' \<Rightarrow> in_range s' Instance)"

text \<open>
  \<open>bound Instance s headp tailp MsgBuf BufSize parser written r\<close>: the configuration
  returned; the instance holds the four bindings and \<open>parser\<close>; of the cursor cells
  exactly those in \<open>written\<close> were stored to, with 0; nothing else in memory changed.
\<close>

definition bound :: "addr \<Rightarrow> state \<Rightarrow> addr \<Rightarrow> addr \<Rightarrow> addr \<Rightarrow> uint16_t \<Rightarrow> addr \<Rightarrow> addr list
    \<Rightarrow> error + state \<Rightarrow> bool" where
  "bound Instance s headp tailp MsgBuf BufSize parser written r =
     (case r of
        Inl e \<Rightarrow> False
      | Inr s' \<Rightarrow>
          instances s' Instance =
            \<lparr>msgBuf = MsgBuf, head = headp, tail = tailp, msgBufSize = BufSize, msgParser = parser\<rparr>
          \<and> (\<forall>q. q \<noteq> Instance \<longrightarrow> instances s' q = instances s q)
          \<and> (\<forall>c. cursors s' c = (if c \<in> set written then 0 else cursors s c))
          \<and> slots s' = slots s
          \<and> parsed s' = parsed s)"

subsection \<open>A concrete memory\<close>

text \<open>Zero-initialised memory, and the messages used on it below.\<close>

definition zeroed :: state where
  "zeroed = \<lparr>instances = (\<lambda>_. \<lparr>msgBuf = 0, head = 0, tail = 0, msgBufSize = 0, msgParser = 0\<rparr>),
             cursors = (\<lambda>_. 0),
             slots = (\<lambda>_. \<lparr>msgID = 0, data = U32 0\<rparr>),
             parsed = []\<rparr>"

text \<open>3.5 as an IEEE-754 single: sign 0, exponent 128, fraction 0x600000.\<close>

definition f32_3_5 :: float where
  "f32_3_5 = 0x40600000"

definition msg_a :: MCF_Message_t where
  "msg_a = \<lparr>msgID = 1, data = U16 65535\<rparr>"

definition msg_b :: MCF_Message_t where
  "msg_b = \<lparr>msgID = 2, data = I16 (- 1)\<rparr>"

definition msg_c :: MCF_Message_t where
  "msg_c = \<lparr>msgID = 3, data = F32 f32_3_5\<rparr>"

definition msg_d :: MCF_Message_t where
  "msg_d = \<lparr>msgID = 4, data = I32 (- 7)\<rparr>"

text \<open>
  The zeroed memory after \<open>MCF_init_RXTX\<close> of the instance at 20 with the head cell 10,
  the tail cell 11, the buffer at 100, the parser 5 and \<open>N\<close> slots.
\<close>

definition booted :: "uint16_t \<Rightarrow> state" where
  "booted N = (case MCF_init_RXTX 20 10 11 100 N 5 zeroed of Inr s \<Rightarrow> s | Inl e \<Rightarrow> zeroed)"

text \<open>The same with 4 slots after two sends, and that with the tail cell set to 9.\<close>

definition loaded :: state where
  "loaded = (case run 20 [Send msg_a, Send msg_b] (booted 4) of
               Some (Inr s) \<Rightarrow> s | _ \<Rightarrow> zeroed)"

text \<open>
  The round trip of one float message, identifier 7 and value 3.5, on the zeroed memory
  configured with \<open>N\<close> slots, and the parser calls a result shows.
\<close>

definition round_trip :: "uint16_t \<Rightarrow> (error + state) option" where
  "round_trip N =
     (case MCF_init_RXTX 20 10 11 100 N 5 zeroed of
        Inl e \<Rightarrow> Some (Inl e)
      | Inr s1 \<Rightarrow>
          (case MCF_send_f32 20 7 f32_3_5 s1 of
             Inl e \<Rightarrow> Some (Inl e)
           | Inr s2 \<Rightarrow> MCF_receive 20 s2))"

definition calls_of :: "(error + state) option \<Rightarrow> call list option" where
  "calls_of r = (case r of Some (Inr s) \<Rightarrow> Some (parsed s) | _ \<Rightarrow> None)"

definition slot_of :: "(error + state) option \<Rightarrow> addr \<Rightarrow> MCF_Message_t option" where
  "slot_of r a = (case r of Some (Inr s) \<Rightarrow> Some (slots s a) | _ \<Rightarrow> None)"

text \<open>Three sends and a drain on a channel of three slots.\<close>

definition overrun :: "(error + state) option" where
  "overrun = run 20 [Send msg_a, Send msg_b, Send msg_c, Receive] (booted 3)"

definition astray :: state where
  "astray = loaded\<lparr>cursors := (cursors loaded)(11 := 9)\<rparr>"

section \<open>Cursor arithmetic\<close>

lemma next_head_unat:
  fixes h0 N :: uint16_t
  assumes "h0 < N"
  shows "unat (if uint N - 1 \<le> uint h0 then 0 else h0 + 1) = (unat h0 + 1) mod unat N"
proof (cases "uint N - 1 \<le> uint h0")
  case True
  with assms have "unat h0 + 1 = unat N"
    unfolding word_less_nat_alt uint_nat by linarith
  then show ?thesis using True by simp
next
  case False
  with assms have lt: "unat h0 + 1 < unat N"
    unfolding word_less_nat_alt uint_nat by linarith
  moreover have "unat N < 2 ^ 16" using unsigned_less [of N] by simp
  ultimately have "unat (h0 + 1) = unat h0 + 1" by (simp add: unat_word_ariths)
  then show ?thesis using False lt by simp
qed

lemma next_head_less:
  fixes h0 N :: uint16_t
  assumes "0 < N"
  shows "(if uint N - 1 \<le> uint h0 then 0 else h0 + 1) < N"
proof (cases "uint N - 1 \<le> uint h0")
  case True
  then show ?thesis using assms by simp
next
  case False
  then have "h0 < N" unfolding word_less_nat_alt uint_nat by linarith
  from next_head_unat [OF this] False have "unat (h0 + 1) = (unat h0 + 1) mod unat N" by simp
  moreover have "0 < unat N" using assms by (simp add: word_less_nat_alt)
  ultimately have "unat (h0 + 1) < unat N" by simp
  then show ?thesis using False by (simp add: word_less_nat_alt)
qed

lemma next_tail_unat:
  fixes t N :: uint16_t
  assumes "t < N"
  shows "unat (if N \<le> t + 1 then 0 else t + 1) = (unat t + 1) mod unat N"
proof -
  have b: "unat N < 2 ^ 16" using unsigned_less [of N] by simp
  from assms have lt: "unat t < unat N" by (simp add: word_less_nat_alt)
  with b have eq: "unat (t + 1) = unat t + 1" by (simp add: unat_word_ariths)
  show ?thesis
  proof (cases "N \<le> t + 1")
    case True
    then have "unat N \<le> unat t + 1" using eq by (simp add: word_le_nat_alt)
    with lt have "unat t + 1 = unat N" by simp
    then show ?thesis using True by simp
  next
    case False
    then have "unat t + 1 < unat N" using eq by (simp add: word_le_nat_alt)
    then show ?thesis using False eq by simp
  qed
qed

lemma next_tail_less:
  fixes t N :: uint16_t
  assumes "t < N"
  shows "(if N \<le> t + 1 then 0 else t + 1) < N"
proof -
  have "0 < unat N" using assms by (simp add: word_less_nat_alt)
  then have "(unat t + 1) mod unat N < unat N" by simp
  then show ?thesis using next_tail_unat [OF assms] by (simp only: word_less_nat_alt)
qed

lemma uint_succ_mod:
  fixes x y N :: uint16_t
  assumes "unat y = (unat x + 1) mod unat N"
  shows "uint y = (uint x + 1) mod uint N"
proof -
  have "uint y = int (unat y)" by (simp only: uint_nat)
  also have "\<dots> = int ((unat x + 1) mod unat N)" using assms by simp
  also have "\<dots> = (uint x + 1) mod uint N"
    by (simp only: uint_nat zmod_int of_nat_add of_nat_1)
  finally show ?thesis .
qed

lemma uint_pos:
  fixes h N :: uint16_t
  assumes "h < N"
  shows "0 < uint N"
  using assms uint_ge_0 [of h] unfolding word_less_def by linarith

lemma distance_0:
  assumes "h < N" "t < N" "distance N h t = 0"
  shows "h = t"
proof -
  have n: "0 < uint N" using uint_pos [OF assms(1)] .
  have "0 \<le> (uint h - uint t) mod uint N" using n by simp
  with assms(3) have "(uint h - uint t) mod uint N = 0" by (simp add: distance_def)
  then have "uint N dvd uint h - uint t" by (simp add: dvd_eq_mod_eq_0)
  moreover have "\<bar>uint h - uint t\<bar> < uint N"
    using assms(1,2) uint_ge_0 [of h] uint_ge_0 [of t] unfolding word_less_def by linarith
  ultimately have "uint h - uint t = 0"
    using zdvd_not_zless [of "\<bar>uint h - uint t\<bar>" "uint N"] by auto
  then show ?thesis by (simp add: word_uint_eq_iff)
qed

lemma distance_same: "0 < N \<Longrightarrow> distance N h h = 0"
  by (simp add: distance_def)

lemma distance_Suc:
  assumes "h < N" "t < N" "distance N h t = Suc d"
  shows "distance N h (if N \<le> t + 1 then 0 else t + 1) = d"
proof -
  let ?t' = "if N \<le> t + 1 then 0 else t + 1"
  have n: "0 < uint N" using uint_pos [OF assms(1)] .
  have t': "uint ?t' = (uint t + 1) mod uint N"
    using uint_succ_mod [OF next_tail_unat [OF assms(2)]] .
  have sd: "(uint h - uint t) mod uint N = int d + 1"
    using assms(3) n by (simp add: distance_def nat_eq_iff)
  have "(uint h - uint ?t') mod uint N = (uint h - (uint t + 1)) mod uint N"
    unfolding t' by (simp add: mod_diff_right_eq)
  also have "\<dots> = ((uint h - uint t) - 1) mod uint N" by (simp add: algebra_simps)
  also have "\<dots> = ((uint h - uint t) mod uint N - 1) mod uint N" by (simp add: mod_diff_left_eq)
  also have "\<dots> = int d mod uint N" using sd by simp
  also have "\<dots> = int d"
  proof -
    have "int d + 1 < uint N" using sd pos_mod_bound [OF n, of "uint h - uint t"] by simp
    then show ?thesis by simp
  qed
  finally show ?thesis by (simp add: distance_def)
qed

text \<open>Sending moves the head one place away from the tail, while there is room.\<close>

lemma distance_send:
  assumes hN: "h < N" and h': "unat h' = (unat h + 1) mod unat N"
    and room: "Suc (distance N h t) < unat N"
  shows "distance N h' t = Suc (distance N h t)"
proof -
  have n: "0 < uint N" using uint_pos [OF hN] .
  have nn: "0 \<le> (uint h - uint t) mod uint N" using n by simp
  have "(uint h' - uint t) mod uint N = ((uint h + 1) mod uint N - uint t) mod uint N"
    using uint_succ_mod [OF h'] by simp
  also have "\<dots> = ((uint h - uint t) + 1) mod uint N"
    by (simp add: mod_diff_left_eq algebra_simps)
  also have "\<dots> = ((uint h - uint t) mod uint N + 1) mod uint N"
    by (simp add: mod_add_left_eq)
  also have "\<dots> = (uint h - uint t) mod uint N + 1"
  proof -
    have "Suc (nat ((uint h - uint t) mod uint N)) < nat (uint N)"
      using room unfolding distance_def unat_eq_nat_uint .
    then have "(uint h - uint t) mod uint N + 1 < uint N"
      using nn by linarith
    then show ?thesis using nn by simp
  qed
  finally show ?thesis using nn by (simp add: distance_def nat_add_distrib)
qed

text \<open>The head is \<open>distance\<close> places after the tail.\<close>

lemma tail_plus_distance:
  assumes "h < N"
  shows "(unat t + distance N h t) mod unat N = unat h"
proof -
  have n: "0 < uint N" using uint_pos [OF assms] .
  have nn: "0 \<le> (uint h - uint t) mod uint N" using n by simp
  have tn: "int (unat t) = uint t" and Nn: "int (unat N) = uint N"
    by (simp_all only: uint_nat)
  have "int ((unat t + distance N h t) mod unat N)
      = (uint t + (uint h - uint t) mod uint N) mod uint N"
    unfolding distance_def zmod_int of_nat_add tn Nn using nn by simp
  also have "\<dots> = (uint t + (uint h - uint t)) mod uint N"
    by (simp add: mod_add_right_eq)
  also have "\<dots> = uint h"
    using assms unfolding word_less_def by simp
  finally have "int ((unat t + distance N h t) mod unat N) = int (unat h)"
    by (simp only: uint_nat)
  then show ?thesis by (simp only: of_nat_eq_iff)
qed

text \<open>Fewer than \<open>N\<close> places apart means different slots.\<close>

lemma ring_distinct:
  fixes a :: nat
  assumes "j < k" "k < j + N"
  shows "(a + j) mod N \<noteq> (a + k) mod N"
proof
  assume "(a + j) mod N = (a + k) mod N"
  then have "(a + k) mod N = (a + j) mod N" by simp
  then have "N dvd (a + k) - (a + j)"
    using assms(1) by (simp add: mod_eq_dvd_iff_nat)
  then have "N dvd k - j" by simp
  moreover have "0 < k - j" "k - j < N" using assms by simp_all
  ultimately show False using nat_dvd_not_less by blast
qed

section \<open>One send\<close>

lemma message_rebuilt:
  fixes x m :: MCF_Message_t
  shows "data m = pl \<Longrightarrow> x\<lparr>data := pl, msgID := msgID m\<rparr> = m"
  by auto

lemma MCF_send_eq:
  assumes "Instance \<noteq> NULL"
  shows "MCF_send Instance m s = Inr (send_effect Instance m s)"
  using assms
  by (cases "data m")
    (simp_all add: MCF_send_def MCF_send_f32_def MCF_send_u16_def MCF_send_u32_def
      MCF_send_i16_def MCF_send_i32_def send_effect_def next_head_def Let_def message_rebuilt)

lemma instances_send_effect: "instances (send_effect p m s) = instances s"
  by (simp add: send_effect_def Let_def)

lemma parsed_send_effect: "parsed (send_effect p m s) = parsed s"
  by (simp add: send_effect_def Let_def)

lemma cursors_send_effect:
  "cursors (send_effect p m s) = (cursors s)(head (instances s p) :=
     next_head (msgBufSize (instances s p)) (cursors s (head (instances s p))))"
  by (simp add: send_effect_def Let_def)

lemma slots_send_effect:
  "slots (send_effect p m s) = (slots s)(msgBuf (instances s p) +
     unat (next_head (msgBufSize (instances s p)) (cursors s (head (instances s p)))) := m)"
  by (simp add: send_effect_def Let_def)

lemma unat_next_head: "h0 < N \<Longrightarrow> unat (next_head N h0) = (unat h0 + 1) mod unat N"
  unfolding next_head_def by (rule next_head_unat)

lemma next_head_in_range: "0 < N \<Longrightarrow> next_head N h0 < N"
  unfolding next_head_def by (rule next_head_less)

section \<open>One drain\<close>

lemma receive_loop_empty:
  assumes "cursors s (head (instances s p)) = cursors s (tail (instances s p))"
  shows "receive_loop p s = Some (Inr s)"
  by (subst receive_loop.simps) (simp add: assms Let_def)

lemma receive_loop_null:
  assumes "msgParser (instances s p) = NULL"
    and "cursors s (head (instances s p)) \<noteq> cursors s (tail (instances s p))"
  shows "receive_loop p s = Some (Inl NullCall)"
  by (subst receive_loop.simps) (simp add: assms Let_def)

lemma receive_loop_step:
  assumes par: "msgParser (instances s p) \<noteq> NULL"
    and ne: "cursors s (head (instances s p)) \<noteq> cursors s (tail (instances s p))"
  shows "receive_loop p s = receive_loop p
     (s\<lparr>cursors := (cursors s)(tail (instances s p) :=
            (if msgBufSize (instances s p) \<le> cursors s (tail (instances s p)) + 1 then 0
             else cursors s (tail (instances s p)) + 1)),
        parsed := parsed s @
          [(msgParser (instances s p),
            msgBuf (instances s p) +
              unat (if msgBufSize (instances s p) \<le> cursors s (tail (instances s p)) + 1 then 0
                    else cursors s (tail (instances s p)) + 1),
            slots s (msgBuf (instances s p) +
              unat (if msgBufSize (instances s p) \<le> cursors s (tail (instances s p)) + 1 then 0
                    else cursors s (tail (instances s p)) + 1)))]\<rparr>)"
  by (subst receive_loop.simps) (use par ne in \<open>simp add: Let_def\<close>)

lemma receive_loop_drains:
  assumes "msgParser (instances s p) \<noteq> NULL" and "in_range s p" and "pending s p = d"
  shows "receive_loop p s = Some (Inr (s\<lparr>cursors := (cursors s)(tail (instances s p) :=
            cursors s (head (instances s p))), parsed := parsed s @ drained s p\<rparr>))"
  using assms
proof (induction d arbitrary: s)
  case 0
  then have eq: "cursors s (head (instances s p)) = cursors s (tail (instances s p))"
    by (auto simp: in_range_def pending_def Let_def intro: distance_0)
  have "drained s p = []" using 0 by (simp add: drained_def)
  then show ?case using eq receive_loop_empty [OF eq] by simp
next
  case (Suc d)
  define I where "I = instances s p"
  define t where "t = cursors s (tail I)"
  define h where "h = cursors s (head I)"
  define N where "N = msgBufSize I"
  define t' where "t' = (if N \<le> t + 1 then 0 else t + 1)"
  define a where "a = msgBuf I + unat t'"
  define s' where "s' = s\<lparr>cursors := (cursors s)(tail I := t'),
               parsed := parsed s @ [(msgParser I, a, slots s a)]\<rparr>"
  from Suc.prems have hN: "h < N" and tN: "t < N"
    by (simp_all add: in_range_def Let_def I_def t_def h_def N_def)
  from Suc.prems have dist: "distance N h t = Suc d"
    by (simp add: pending_def Let_def I_def t_def h_def N_def)
  have ne: "h \<noteq> t" using dist by (auto simp: distance_def)
  then have ptr: "head I \<noteq> tail I" by (auto simp: h_def t_def)
  have step: "receive_loop p s = receive_loop p s'"
    using receive_loop_step [OF Suc.prems(1)] ne
    unfolding s'_def a_def t'_def N_def t_def h_def I_def by simp
  have inst: "instances s' p = I" by (simp add: s'_def I_def)
  have sl': "slots s' = slots s" by (simp add: s'_def)
  have h': "cursors s' (head I) = h" using ptr by (simp add: s'_def h_def)
  have t': "cursors s' (tail I) = t'" by (simp add: s'_def)
  have t'N: "t' < N" using next_tail_less [OF tN] by (simp add: t'_def)
  have r': "in_range s' p"
    using hN t'N by (simp add: in_range_def Let_def inst h' t' N_def)
  have d': "pending s' p = d"
    using distance_Suc [OF hN tN dist] by (simp add: pending_def Let_def inst h' t' N_def t'_def)
  have par': "msgParser (instances s' p) \<noteq> NULL" using Suc.prems(1) by (simp add: inst I_def)
  have ut': "unat t' = (unat t + 1) mod unat N" using next_tail_unat [OF tN] by (simp add: t'_def)
  have sl: "slot_after s' p k = slot_after s p (Suc k)" for k
  proof -
    have "slot_after s' p k = msgBuf I + (unat t' + k) mod unat N"
      by (simp add: slot_after_def Let_def inst t' N_def)
    also have "\<dots> = msgBuf I + (unat t + Suc k) mod unat N"
      unfolding ut' by (simp add: mod_add_left_eq)
    also have "\<dots> = slot_after s p (Suc k)"
      by (simp add: slot_after_def Let_def I_def t_def N_def)
    finally show ?thesis .
  qed
  have one: "slot_after s p (Suc 0) = a"
    by (simp add: slot_after_def Let_def a_def ut' I_def t_def N_def)
  have dr: "drained s p = (msgParser I, a, slots s a) # drained s' p"
  proof -
    have "[1..<Suc (Suc d)] = 1 # map Suc [1..<Suc d]"
      by (simp add: upt_conv_Cons map_Suc_upt del: upt_Suc)
    then show ?thesis
      unfolding drained_def d' Suc.prems(3) inst sl'
      by (simp add: sl one o_def I_def del: upt_Suc)
  qed
  have "receive_loop p s = Some (Inr (s'\<lparr>cursors := (cursors s')(tail I := h),
          parsed := parsed s' @ drained s' p\<rparr>))"
    using Suc.IH [OF par' r' d'] unfolding step inst h' .
  also have "s'\<lparr>cursors := (cursors s')(tail I := h), parsed := parsed s' @ drained s' p\<rparr>
      = s\<lparr>cursors := (cursors s)(tail I := h), parsed := parsed s @ drained s p\<rparr>"
    unfolding dr by (simp add: s'_def)
  finally show ?case unfolding I_def h_def .
qed

text \<open>A tail cursor outside the buffer is brought back to slot 0 by one iteration.\<close>

lemma next_tail_outside:
  fixes t N :: uint16_t
  assumes "0 < N" and "\<not> t < N"
  shows "(if N \<le> t + 1 then 0 else t + 1) = 0"
proof (cases "N \<le> t + 1")
  case True
  then show ?thesis by simp
next
  case False
  then have lt: "unat (t + 1) < unat N" by (simp add: word_le_nat_alt)
  from assms(2) have ge: "unat N \<le> unat t" by (simp add: word_less_nat_alt)
  have b: "unat t < 2 ^ 16" using unsigned_less [of t] by simp
  have m: "unat (t + 1) = (unat t + 1) mod 2 ^ 16" by (simp add: unat_word_ariths)
  have "\<not> unat t + 1 < 2 ^ 16"
  proof
    assume "unat t + 1 < 2 ^ 16"
    then have "unat (t + 1) = unat t + 1" using m by simp
    then show False using lt ge by simp
  qed
  with b have "unat t + 1 = 2 ^ 16" by simp
  then have "unat (t + 1) = 0" using m by simp
  then show ?thesis using False by (simp add: unat_eq_0)
qed

section \<open>Send: the head cursor and the slot\<close>

lemma sent_send_effect:
  assumes "cursors s (head (instances s p)) < msgBufSize (instances s p)"
  shows "sent p s (msgID m) (data m) (Inr (send_effect p m s))"
  using unat_next_head [OF assms]
  by (simp add: sent_def Let_def cursors_send_effect slots_send_effect)

lemma MCF_send_variants:
  "MCF_send_u16 p mid u16 s = MCF_send p \<lparr>msgID = mid, data = U16 u16\<rparr> s"
  "MCF_send_i16 p mid i16 s = MCF_send p \<lparr>msgID = mid, data = I16 i16\<rparr> s"
  "MCF_send_u32 p mid u32 s = MCF_send p \<lparr>msgID = mid, data = U32 u32\<rparr> s"
  "MCF_send_i32 p mid i32 s = MCF_send p \<lparr>msgID = mid, data = I32 i32\<rparr> s"
  "MCF_send_f32 p mid f32 s = MCF_send p \<lparr>msgID = mid, data = F32 f32\<rparr> s"
  by (simp_all add: MCF_send_def)

text \<open>
  C2: on a channel whose head cursor is inside the buffer, each of the five send
  operations sets the head cursor to (old head + 1) mod capacity, and on return the slot
  at the new index holds the value in the union member of the operation's type and the
  identifier in \<open>msgID\<close>.
\<close>

theorem send_advances_head_and_fills_slot:
  assumes "Instance \<noteq> NULL"
    and "cursors s (head (instances s Instance)) < msgBufSize (instances s Instance)"
  shows "sent Instance s mid (U16 u16) (MCF_send_u16 Instance mid u16 s)
       \<and> sent Instance s mid (I16 i16) (MCF_send_i16 Instance mid i16 s)
       \<and> sent Instance s mid (U32 u32) (MCF_send_u32 Instance mid u32 s)
       \<and> sent Instance s mid (I32 i32) (MCF_send_i32 Instance mid i32 s)
       \<and> sent Instance s mid (F32 f32) (MCF_send_f32 Instance mid f32 s)"
  using sent_send_effect [OF assms(2), of "\<lparr>msgID = mid, data = U16 u16\<rparr>"]
    sent_send_effect [OF assms(2), of "\<lparr>msgID = mid, data = I16 i16\<rparr>"]
    sent_send_effect [OF assms(2), of "\<lparr>msgID = mid, data = U32 u32\<rparr>"]
    sent_send_effect [OF assms(2), of "\<lparr>msgID = mid, data = I32 i32\<rparr>"]
    sent_send_effect [OF assms(2), of "\<lparr>msgID = mid, data = F32 f32\<rparr>"]
  by (simp add: MCF_send_variants MCF_send_eq [OF assms(1)])

lemma booted_eq:
  "0 < N \<Longrightarrow> booted N = zeroed\<lparr>instances := (instances zeroed)
     (20 := \<lparr>msgBuf = 100, head = 10, tail = 11, msgBufSize = N, msgParser = 5\<rparr>)\<rparr>"
  by (simp add: booted_def MCF_init_RXTX_def NULL_def zeroed_def Let_def fun_eq_iff)

lemma booted_fields:
  assumes "0 < N"
  shows "instances (booted N) 20 = \<lparr>msgBuf = 100, head = 10, tail = 11, msgBufSize = N, msgParser = 5\<rparr>"
    and "cursors (booted N) c = 0"
    and "slots (booted N) a = \<lparr>msgID = 0, data = U32 0\<rparr>"
    and "parsed (booted N) = []"
  by (simp_all add: booted_eq [OF assms] zeroed_def)

theorem send_advances_head_and_fills_slot_witness:
  "sent 20 (booted 4) 7 (U16 9) (MCF_send_u16 20 7 9 (booted 4))
   \<and> sent 20 (booted 4) 7 (I16 (- 1)) (MCF_send_i16 20 7 (- 1) (booted 4))
   \<and> sent 20 (booted 4) 7 (U32 70000) (MCF_send_u32 20 7 70000 (booted 4))
   \<and> sent 20 (booted 4) 7 (I32 (- 7)) (MCF_send_i32 20 7 (- 7) (booted 4))
   \<and> sent 20 (booted 4) 7 (F32 f32_3_5) (MCF_send_f32 20 7 f32_3_5 (booted 4))"
proof -
  have a: "(20 :: addr) \<noteq> NULL" by (simp add: NULL_def)
  have b: "cursors (booted 4) (head (instances (booted 4) 20)) < msgBufSize (instances (booted 4) 20)"
    by (simp add: booted_fields)
  show ?thesis using send_advances_head_and_fills_slot [OF a b] .
qed

section \<open>Send: the frame\<close>

lemma only_head_slot_send_effect:
  assumes "cursors s (head (instances s p)) < msgBufSize (instances s p)"
    and "head (instances s p) \<noteq> tail (instances s p)"
  shows "only_head_slot p s (Inr (send_effect p m s))"
  using unat_next_head [OF assms(1)] assms(2)
  by (simp add: only_head_slot_def Let_def cursors_send_effect slots_send_effect
      instances_send_effect parsed_send_effect)

text \<open>
  C7: on a channel whose head cursor is inside the buffer and whose two cursors are two
  cells, each send operation leaves the tail cursor, the capacity field, the parser field
  and every slot other than slot (old head + 1) mod capacity unchanged; it writes only
  the head cursor cell and that slot.
\<close>

theorem send_frame:
  assumes "Instance \<noteq> NULL"
    and "cursors s (head (instances s Instance)) < msgBufSize (instances s Instance)"
    and "head (instances s Instance) \<noteq> tail (instances s Instance)"
  shows "only_head_slot Instance s (MCF_send_u16 Instance mid u16 s)
       \<and> only_head_slot Instance s (MCF_send_i16 Instance mid i16 s)
       \<and> only_head_slot Instance s (MCF_send_u32 Instance mid u32 s)
       \<and> only_head_slot Instance s (MCF_send_i32 Instance mid i32 s)
       \<and> only_head_slot Instance s (MCF_send_f32 Instance mid f32 s)"
  using only_head_slot_send_effect [OF assms(2,3)]
  by (simp add: MCF_send_variants MCF_send_eq [OF assms(1)])

theorem send_frame_witness:
  "only_head_slot 20 (booted 4) (MCF_send_u16 20 7 9 (booted 4))
   \<and> only_head_slot 20 (booted 4) (MCF_send_i16 20 7 (- 1) (booted 4))
   \<and> only_head_slot 20 (booted 4) (MCF_send_u32 20 7 70000 (booted 4))
   \<and> only_head_slot 20 (booted 4) (MCF_send_i32 20 7 (- 7) (booted 4))
   \<and> only_head_slot 20 (booted 4) (MCF_send_f32 20 7 f32_3_5 (booted 4))"
proof -
  have a: "(20 :: addr) \<noteq> NULL" by (simp add: NULL_def)
  have b: "cursors (booted 4) (head (instances (booted 4) 20)) < msgBufSize (instances (booted 4) 20)"
    by (simp add: booted_fields)
  have c: "head (instances (booted 4) 20) \<noteq> tail (instances (booted 4) 20)"
    by (simp add: booted_fields)
  show ?thesis using send_frame [OF a b c] .
qed

section \<open>Configuration\<close>

text \<open>
  C6: each configuration stores the buffer pointer, the cursor pointers and the capacity
  into the instance and resets exactly the cursors its mode owns: \<open>MCF_init_TX\<close> stores 0
  to the head cell only and leaves the parser field as it was, \<open>MCF_init_RX\<close> stores the
  parser and 0 to the tail cell only, \<open>MCF_init_RXTX\<close> stores the parser and 0 to both
  cells. No other cursor cell, no slot and no other instance changes.
\<close>

theorem init_resets_own_cursors:
  assumes "NULL \<noteq> Instance" and "NULL \<noteq> headp" and "NULL \<noteq> tailp" and "NULL \<noteq> MsgBuf"
    and "0 < BufSize" and "NULL \<noteq> parser"
  shows "bound Instance s headp tailp MsgBuf BufSize (msgParser (instances s Instance)) [headp]
           (MCF_init_TX Instance headp tailp MsgBuf BufSize s)
       \<and> bound Instance s headp tailp MsgBuf BufSize parser [tailp]
           (MCF_init_RX Instance headp tailp MsgBuf BufSize parser s)
       \<and> bound Instance s headp tailp MsgBuf BufSize parser [tailp, headp]
           (MCF_init_RXTX Instance headp tailp MsgBuf BufSize parser s)"
  using assms
  by (simp add: bound_def MCF_init_TX_def MCF_init_RX_def MCF_init_RXTX_def Let_def)

theorem init_resets_own_cursors_witness:
  "bound 20 zeroed 10 11 100 4 (msgParser (instances zeroed 20)) [10]
           (MCF_init_TX 20 10 11 100 4 zeroed)
       \<and> bound 20 zeroed 10 11 100 4 5 [11] (MCF_init_RX 20 10 11 100 4 5 zeroed)
       \<and> bound 20 zeroed 10 11 100 4 5 [11, 10] (MCF_init_RXTX 20 10 11 100 4 5 zeroed)"
  using init_resets_own_cursors [of 20 10 11 100 4 5 zeroed]
  by (simp add: NULL_def)

section \<open>The cursors stay inside the buffer\<close>

lemma in_range_send_effect:
  assumes "in_range s p"
  shows "in_range (send_effect p m s) p"
proof -
  let ?I = "instances s p"
  from assms have h: "cursors s (head ?I) < msgBufSize ?I" and t: "cursors s (tail ?I) < msgBufSize ?I"
    by (simp_all add: in_range_def Let_def)
  have pos: "0 < msgBufSize ?I" using h by (meson not_less word_zero_le le_less_trans leD)
  show ?thesis
    using next_head_in_range [OF pos, of "cursors s (head ?I)"] t
    by (simp add: in_range_def Let_def cursors_send_effect instances_send_effect)
qed

lemma MCF_receive_drains:
  assumes "Instance \<noteq> NULL" and "msgParser (instances s Instance) \<noteq> NULL"
    and "in_range s Instance"
  shows "MCF_receive Instance s = Some (Inr (s\<lparr>cursors := (cursors s)(tail (instances s Instance) :=
            cursors s (head (instances s Instance))), parsed := parsed s @ drained s Instance\<rparr>))"
  using receive_loop_drains [OF assms(2,3) refl] assms(1) by (simp add: MCF_receive_def)

text \<open>
  C5: every operation keeps both cursors inside the buffer. A configuration returns with
  the cursors it resets at 0 and leaves the other one where it was, so a cursor that was
  inside the new capacity still is; a send and a drain that start with both cursors
  inside the buffer return with both inside it.
\<close>

theorem cursors_stay_in_range:
  assumes "NULL \<noteq> Instance"
  shows "(NULL \<noteq> headp \<and> NULL \<noteq> tailp \<and> NULL \<noteq> MsgBuf \<and> 0 < BufSize \<and> cursors s tailp < BufSize
          \<longrightarrow> returns_in_range Instance (MCF_init_TX Instance headp tailp MsgBuf BufSize s))
       \<and> (NULL \<noteq> headp \<and> NULL \<noteq> tailp \<and> NULL \<noteq> MsgBuf \<and> 0 < BufSize \<and> NULL \<noteq> parser
            \<and> cursors s headp < BufSize
          \<longrightarrow> returns_in_range Instance (MCF_init_RX Instance headp tailp MsgBuf BufSize parser s))
       \<and> (NULL \<noteq> headp \<and> NULL \<noteq> tailp \<and> NULL \<noteq> MsgBuf \<and> 0 < BufSize \<and> NULL \<noteq> parser
          \<longrightarrow> returns_in_range Instance (MCF_init_RXTX Instance headp tailp MsgBuf BufSize parser s))
       \<and> (in_range s Instance
          \<longrightarrow> returns_in_range Instance (MCF_send_u16 Instance mid u16 s)
            \<and> returns_in_range Instance (MCF_send_i16 Instance mid i16 s)
            \<and> returns_in_range Instance (MCF_send_u32 Instance mid u32 s)
            \<and> returns_in_range Instance (MCF_send_i32 Instance mid i32 s)
            \<and> returns_in_range Instance (MCF_send_f32 Instance mid f32 s))
       \<and> (in_range s Instance \<and> msgParser (instances s Instance) \<noteq> NULL
          \<longrightarrow> (\<exists>s'. MCF_receive Instance s = Some (Inr s') \<and> in_range s' Instance))"
proof -
  have p: "Instance \<noteq> NULL" using assms by simp
  have tx: "returns_in_range Instance (MCF_init_TX Instance headp tailp MsgBuf BufSize s)"
    if "NULL \<noteq> headp \<and> NULL \<noteq> tailp \<and> NULL \<noteq> MsgBuf \<and> 0 < BufSize \<and> cursors s tailp < BufSize"
    using that assms by (simp add: returns_in_range_def MCF_init_TX_def in_range_def Let_def)
  have rx: "returns_in_range Instance (MCF_init_RX Instance headp tailp MsgBuf BufSize parser s)"
    if "NULL \<noteq> headp \<and> NULL \<noteq> tailp \<and> NULL \<noteq> MsgBuf \<and> 0 < BufSize \<and> NULL \<noteq> parser
          \<and> cursors s headp < BufSize"
    using that assms by (simp add: returns_in_range_def MCF_init_RX_def in_range_def Let_def)
  have rxtx: "returns_in_range Instance (MCF_init_RXTX Instance headp tailp MsgBuf BufSize parser s)"
    if "NULL \<noteq> headp \<and> NULL \<noteq> tailp \<and> NULL \<noteq> MsgBuf \<and> 0 < BufSize \<and> NULL \<noteq> parser"
    using that assms by (simp add: returns_in_range_def MCF_init_RXTX_def in_range_def Let_def)
  have snd: "returns_in_range Instance (MCF_send Instance m s)" if "in_range s Instance" for m
    using in_range_send_effect [OF that] by (simp add: MCF_send_eq [OF p] returns_in_range_def)
  have rcv: "\<exists>s'. MCF_receive Instance s = Some (Inr s') \<and> in_range s' Instance"
    if "in_range s Instance \<and> msgParser (instances s Instance) \<noteq> NULL"
  proof -
    from that have r: "in_range s Instance" and q: "msgParser (instances s Instance) \<noteq> NULL"
      by simp_all
    show ?thesis
      using r unfolding MCF_receive_drains [OF p q r]
      by (simp add: in_range_def Let_def)
  qed
  show ?thesis
    using tx rx rxtx snd rcv by (simp add: MCF_send_variants)
qed

theorem cursors_stay_in_range_witness:
  "returns_in_range 20 (MCF_init_TX 20 10 11 100 4 zeroed)
   \<and> returns_in_range 20 (MCF_init_RX 20 10 11 100 4 5 zeroed)
   \<and> returns_in_range 20 (MCF_init_RXTX 20 10 11 100 4 5 zeroed)
   \<and> returns_in_range 20 (MCF_send_u16 20 7 9 (booted 4))
   \<and> returns_in_range 20 (MCF_send_i16 20 7 (- 1) (booted 4))
   \<and> returns_in_range 20 (MCF_send_u32 20 7 70000 (booted 4))
   \<and> returns_in_range 20 (MCF_send_i32 20 7 (- 7) (booted 4))
   \<and> returns_in_range 20 (MCF_send_f32 20 7 f32_3_5 (booted 4))
   \<and> (\<exists>s'. MCF_receive 20 (booted 4) = Some (Inr s') \<and> in_range s' 20)"
proof -
  have a: "NULL \<noteq> (20 :: addr)" by (simp add: NULL_def)
  have z: "cursors zeroed c = 0" for c by (simp add: zeroed_def)
  have r: "in_range (booted 4) 20" by (simp add: in_range_def booted_fields)
  have q: "msgParser (instances (booted 4) 20) \<noteq> NULL" by (simp add: booted_fields NULL_def)
  show ?thesis
    using cursors_stay_in_range [OF a, of 10 11 100 4 zeroed 5]
      cursors_stay_in_range [OF a, of _ _ _ _ "booted 4" _ 7 9 "- 1" 70000 "- 7" f32_3_5] r q
    by (simp add: NULL_def z)
qed

section \<open>Drain\<close>

lemma length_drained: "length (drained s p) = pending s p"
  by (simp add: drained_def)

lemma nth_drained:
  assumes "k < pending s p"
  shows "drained s p ! k = (msgParser (instances s p), slot_after s p (Suc k),
           slots s (slot_after s p (Suc k)))"
proof -
  have "[1..<Suc (pending s p)] ! k = Suc k"
    using assms by (simp del: upt_Suc)
  then show ?thesis using assms by (simp add: drained_def del: upt_Suc)
qed

text \<open>
  C3: on a channel with both cursors inside the buffer (and a parser), one call of
  \<open>MCF_receive\<close> returns after exactly d parser calls, d = (head - tail) mod capacity;
  call number k + 1 is given the address of slot (tail + k + 1) mod capacity, where the
  tail cursor then stands; on return the tail cursor equals the head cursor and nothing
  else has changed. With head = tail at the start there is no call and the state is
  unchanged.
\<close>

theorem receive_drains_pending:
  assumes "Instance \<noteq> NULL" and "msgParser (instances s Instance) \<noteq> NULL"
    and "in_range s Instance"
  shows "MCF_receive Instance s =
           Some (Inr (s\<lparr>cursors := (cursors s)(tail (instances s Instance) :=
                         cursors s (head (instances s Instance))),
                       parsed := parsed s @ drained s Instance\<rparr>))
       \<and> length (drained s Instance) =
           nat ((uint (cursors s (head (instances s Instance)))
                 - uint (cursors s (tail (instances s Instance))))
                mod uint (msgBufSize (instances s Instance)))
       \<and> (\<forall>k < length (drained s Instance). drained s Instance ! k =
            (msgParser (instances s Instance),
             msgBuf (instances s Instance) +
               (unat (cursors s (tail (instances s Instance))) + (k + 1))
                 mod unat (msgBufSize (instances s Instance)),
             slots s (msgBuf (instances s Instance) +
               (unat (cursors s (tail (instances s Instance))) + (k + 1))
                 mod unat (msgBufSize (instances s Instance)))))
       \<and> (cursors s (head (instances s Instance)) = cursors s (tail (instances s Instance))
            \<longrightarrow> MCF_receive Instance s = Some (Inr s))"
proof -
  have "length (drained s Instance) =
           nat ((uint (cursors s (head (instances s Instance)))
                 - uint (cursors s (tail (instances s Instance))))
                mod uint (msgBufSize (instances s Instance)))"
    by (simp add: length_drained pending_def distance_def Let_def)
  moreover have "\<forall>k < length (drained s Instance). drained s Instance ! k =
            (msgParser (instances s Instance),
             msgBuf (instances s Instance) +
               (unat (cursors s (tail (instances s Instance))) + (k + 1))
                 mod unat (msgBufSize (instances s Instance)),
             slots s (msgBuf (instances s Instance) +
               (unat (cursors s (tail (instances s Instance))) + (k + 1))
                 mod unat (msgBufSize (instances s Instance))))"
    using nth_drained [of _ s Instance]
    by (simp add: length_drained slot_after_def Let_def)
  moreover have "MCF_receive Instance s = Some (Inr s)"
    if "cursors s (head (instances s Instance)) = cursors s (tail (instances s Instance))"
    using receive_loop_empty [OF that] assms(1) by (simp add: MCF_receive_def)
  ultimately show ?thesis using MCF_receive_drains [OF assms] by blast
qed

lemma loaded_eq: "loaded = send_effect 20 msg_b (send_effect 20 msg_a (booted 4))"
  by (simp add: loaded_def MCF_send_eq NULL_def)

lemma loaded_fields:
  "instances loaded 20 = \<lparr>msgBuf = 100, head = 10, tail = 11, msgBufSize = 4, msgParser = 5\<rparr>"
  "cursors loaded 10 = 2"
  "cursors loaded 11 = 0"
  "slots loaded 101 = msg_a"
  "slots loaded 102 = msg_b"
  "parsed loaded = []"
  by (simp_all add: loaded_eq send_effect_def next_head_def Let_def booted_fields)

theorem receive_drains_pending_witness:
  "MCF_receive 20 (booted 4) = Some (Inr (booted 4))
   \<and> MCF_receive 20 loaded =
       Some (Inr (loaded\<lparr>cursors := (cursors loaded)(11 := 2),
                         parsed := [(5, 101, msg_a), (5, 102, msg_b)]\<rparr>))"
proof -
  have a: "(20 :: addr) \<noteq> NULL" by (simp add: NULL_def)
  have b: "msgParser (instances (booted 4) 20) \<noteq> NULL" by (simp add: booted_fields NULL_def)
  have c: "in_range (booted 4) 20" by (simp add: in_range_def booted_fields)
  have b': "msgParser (instances loaded 20) \<noteq> NULL" by (simp add: loaded_fields NULL_def)
  have c': "in_range loaded 20" by (simp add: in_range_def loaded_fields)
  have d: "drained loaded 20 = [(5, 101, msg_a), (5, 102, msg_b)]"
    by (simp add: drained_def pending_def distance_def slot_after_def loaded_fields upt_conv_Cons
        del: upt_Suc)
  have e: "cursors (booted 4) (head (instances (booted 4) 20))
      = cursors (booted 4) (tail (instances (booted 4) 20))"
    by (simp add: booted_fields)
  have 1: "MCF_receive 20 (booted 4) = Some (Inr (booted 4))"
    using receive_drains_pending [OF a b c] e by blast
  have "MCF_receive 20 loaded =
      Some (Inr (loaded\<lparr>cursors := (cursors loaded)(tail (instances loaded 20) :=
                    cursors loaded (head (instances loaded 20))),
                  parsed := parsed loaded @ drained loaded 20\<rparr>))"
    using receive_drains_pending [OF a b' c'] by blast
  then have 2: "MCF_receive 20 loaded =
       Some (Inr (loaded\<lparr>cursors := (cursors loaded)(11 := 2),
                         parsed := [(5, 101, msg_a), (5, 102, msg_b)]\<rparr>))"
    by (simp add: loaded_fields d)
  show ?thesis using 1 2 by simp
qed

section \<open>Drain returns\<close>

lemma receive_loop_returns:
  assumes par: "msgParser (instances s p) \<noteq> NULL"
    and hN: "cursors s (head (instances s p)) < msgBufSize (instances s p)"
  shows "\<exists>s'. receive_loop p s = Some (Inr s')
           \<and> cursors s' (head (instances s' p)) = cursors s' (tail (instances s' p))"
proof (cases "cursors s (tail (instances s p)) < msgBufSize (instances s p)")
  case True
  with hN have "in_range s p" by (simp add: in_range_def Let_def)
  from receive_loop_drains [OF par this refl] show ?thesis by simp
next
  case False
  define I where "I = instances s p"
  define t' where "t' = (if msgBufSize I \<le> cursors s (tail I) + 1 then 0 else cursors s (tail I) + 1)"
  define a where "a = msgBuf I + unat t'"
  define s1 where "s1 = s\<lparr>cursors := (cursors s)(tail I := t'),
      parsed := parsed s @ [(msgParser I, a, slots s a)]\<rparr>"
  have ne: "cursors s (head I) \<noteq> cursors s (tail I)"
    using hN False by (auto simp: I_def)
  then have ptr: "head I \<noteq> tail I" by auto
  have pos: "0 < msgBufSize I"
    using hN unfolding I_def by (meson not_less word_zero_le le_less_trans leD)
  have "\<not> cursors s (tail I) < msgBufSize I" using False by (simp add: I_def)
  from next_tail_outside [OF pos this] have t0: "t' = 0"
    unfolding t'_def .
  have step: "receive_loop p s = receive_loop p s1"
    using receive_loop_step [OF par] ne unfolding s1_def a_def t'_def I_def by simp
  have inst: "instances s1 p = I" by (simp add: s1_def I_def)
  have "in_range s1 p"
    using hN pos ptr by (simp add: in_range_def Let_def inst) (simp add: s1_def t0 I_def)
  moreover have "msgParser (instances s1 p) \<noteq> NULL" using par by (simp add: inst I_def)
  ultimately show ?thesis
    using receive_loop_drains [OF _ _ refl, of s1 p] unfolding step by simp
qed

text \<open>
  C4: \<open>MCF_receive\<close> returns from every state whose head cursor is inside the buffer,
  wherever the tail cursor stands: it ends (normally, with tail = head, when the
  instance has a parser), and when head equals tail at the start it returns at once,
  with no call and no change, rather than wait for a message.
\<close>

theorem receive_terminates:
  assumes "Instance \<noteq> NULL"
    and "cursors s (head (instances s Instance)) < msgBufSize (instances s Instance)"
  shows "(\<exists>r. MCF_receive Instance s = Some r)
       \<and> (msgParser (instances s Instance) \<noteq> NULL \<longrightarrow>
            (\<exists>s'. MCF_receive Instance s = Some (Inr s')
               \<and> cursors s' (head (instances s' Instance)) = cursors s' (tail (instances s' Instance))))
       \<and> (cursors s (head (instances s Instance)) = cursors s (tail (instances s Instance)) \<longrightarrow>
            MCF_receive Instance s = Some (Inr s))"
proof -
  have rcv: "MCF_receive Instance s = receive_loop Instance s"
    using assms(1) by (simp add: MCF_receive_def)
  have emp: "MCF_receive Instance s = Some (Inr s)"
    if "cursors s (head (instances s Instance)) = cursors s (tail (instances s Instance))"
    unfolding rcv using receive_loop_empty [OF that] .
  have par: "\<exists>s'. MCF_receive Instance s = Some (Inr s')
               \<and> cursors s' (head (instances s' Instance)) = cursors s' (tail (instances s' Instance))"
    if "msgParser (instances s Instance) \<noteq> NULL"
    unfolding rcv using receive_loop_returns [OF that assms(2)] .
  have "\<exists>r. MCF_receive Instance s = Some r"
  proof (cases "msgParser (instances s Instance) = NULL")
    case False
    then show ?thesis using par by blast
  next
    case True
    show ?thesis
    proof (cases "cursors s (head (instances s Instance)) = cursors s (tail (instances s Instance))")
      case True
      then show ?thesis using emp by blast
    next
      case False
      show ?thesis unfolding rcv using receive_loop_null [OF True False] by blast
    qed
  qed
  then show ?thesis using par emp by blast
qed

lemma astray_fields:
  "instances astray 20 = \<lparr>msgBuf = 100, head = 10, tail = 11, msgBufSize = 4, msgParser = 5\<rparr>"
  "cursors astray 10 = 2"
  "cursors astray 11 = 9"
  by (simp_all add: astray_def loaded_fields)

theorem receive_terminates_witness:
  "(\<exists>r. MCF_receive 20 astray = Some r)
   \<and> (\<exists>s'. MCF_receive 20 astray = Some (Inr s')
          \<and> cursors s' (head (instances s' 20)) = cursors s' (tail (instances s' 20)))
   \<and> MCF_receive 20 (booted 4) = Some (Inr (booted 4))"
proof -
  have a: "(20 :: addr) \<noteq> NULL" by (simp add: NULL_def)
  have b: "cursors astray (head (instances astray 20)) < msgBufSize (instances astray 20)"
    by (simp add: astray_fields)
  have c: "msgParser (instances astray 20) \<noteq> NULL" by (simp add: astray_fields NULL_def)
  have b': "cursors (booted 4) (head (instances (booted 4) 20)) < msgBufSize (instances (booted 4) 20)"
    by (simp add: booted_fields)
  have e: "cursors (booted 4) (head (instances (booted 4) 20))
      = cursors (booted 4) (tail (instances (booted 4) 20))"
    by (simp add: booted_fields)
  show ?thesis
    using receive_terminates [OF a b] receive_terminates [OF a b'] c e by blast
qed

section \<open>A buffer of one slot\<close>

lemma init_RXTX_Inr:
  assumes "MCF_init_RXTX Instance headp tailp MsgBuf N parser s0 = Inr s1"
  shows "Instance \<noteq> NULL" and "parser \<noteq> NULL" and "0 < N"
    and "instances s1 Instance =
           \<lparr>msgBuf = MsgBuf, head = headp, tail = tailp, msgBufSize = N, msgParser = parser\<rparr>"
    and "cursors s1 headp = 0" and "cursors s1 tailp = 0"
    and "parsed s1 = parsed s0" and "slots s1 = slots s0"
  using assms
  by (auto simp: MCF_init_RXTX_def Let_def split: if_splits)

lemma next_head_one: "next_head 1 h0 = 0"
  by (simp add: next_head_def)

lemma run_capacity_one:
  assumes "Instance \<noteq> NULL"
    and "instances s Instance = I" and "msgBufSize I = 1"
    and "cursors s (head I) = 0" and "cursors s (tail I) = 0"
  shows "\<exists>s'. run Instance ops s = Some (Inr s') \<and> parsed s' = parsed s
           \<and> cursors s' (head I) = 0 \<and> cursors s' (tail I) = 0
           \<and> instances s' Instance = I"
  using assms(2,4,5)
proof (induction ops arbitrary: s)
  case Nil
  then show ?case by simp
next
  case (Cons x ops)
  show ?case
  proof (cases x)
    case (Send m)
    let ?s = "send_effect Instance m s"
    have 1: "instances ?s Instance = I" using Cons.prems(1) by (simp add: instances_send_effect)
    have 2: "cursors ?s (head I) = 0"
      using Cons.prems(1) assms(3) by (simp add: cursors_send_effect next_head_one)
    have 3: "cursors ?s (tail I) = 0"
      using Cons.prems assms(3) by (simp add: cursors_send_effect next_head_one)
    from Cons.IH [OF 1 2 3] show ?thesis
      by (simp add: Send MCF_send_eq [OF assms(1)] parsed_send_effect)
  next
    case Receive
    have "receive_loop Instance s = Some (Inr s)"
      using receive_loop_empty [of s Instance] Cons.prems by simp
    with Cons.IH [OF Cons.prems] show ?thesis
      using assms(1) by (simp add: Receive MCF_receive_def)
  qed
qed

text \<open>
  C10: on a channel configured with one slot every send writes slot 0 and leaves the
  head cursor at 0; so after \<open>MCF_init_RXTX\<close>, whatever is sent and however often the
  channel is drained, head and tail are both 0 and the parser is never called.
\<close>

theorem capacity_one_never_delivers:
  assumes "MCF_init_RXTX Instance headp tailp MsgBuf 1 parser s0 = Inr s1"
  shows "(\<exists>s'. run Instance ops s1 = Some (Inr s') \<and> parsed s' = parsed s1
            \<and> cursors s' headp = 0 \<and> cursors s' tailp = 0)
       \<and> (msgBufSize (instances s Instance) = 1 \<longrightarrow>
            (\<exists>s'. MCF_send Instance m s = Inr s'
               \<and> cursors s' (head (instances s Instance)) = 0
               \<and> slots s' (msgBuf (instances s Instance) + 0) = m))"
proof -
  note i = init_RXTX_Inr [OF assms]
  have "\<exists>s'. run Instance ops s1 = Some (Inr s') \<and> parsed s' = parsed s1
            \<and> cursors s' headp = 0 \<and> cursors s' tailp = 0"
    using run_capacity_one [OF i(1) i(4), of ops] i(5,6) by auto
  moreover have "\<exists>s'. MCF_send Instance m s = Inr s'
               \<and> cursors s' (head (instances s Instance)) = 0
               \<and> slots s' (msgBuf (instances s Instance) + 0) = m"
    if "msgBufSize (instances s Instance) = 1"
    using that by (simp add: MCF_send_eq [OF i(1)] cursors_send_effect slots_send_effect next_head_one)
  ultimately show ?thesis by blast
qed

theorem capacity_one_never_delivers_witness:
  "(\<exists>s'. run 20 [Send msg_a, Receive, Send msg_b, Send msg_c, Receive] (booted 1) = Some (Inr s')
        \<and> parsed s' = parsed (booted 1) \<and> cursors s' 10 = 0 \<and> cursors s' 11 = 0)
   \<and> (\<exists>s'. MCF_send 20 msg_c (booted 1) = Inr s'
        \<and> cursors s' (head (instances (booted 1) 20)) = 0
        \<and> slots s' (msgBuf (instances (booted 1) 20) + 0) = msg_c)"
proof -
  have a: "MCF_init_RXTX 20 10 11 100 1 5 zeroed = Inr (booted 1)"
    by (simp add: booted_def MCF_init_RXTX_def NULL_def Let_def)
  have b: "msgBufSize (instances (booted 1) 20) = 1" by (simp add: booted_fields)
  show ?thesis
    using capacity_one_never_delivers [OF a, of "[Send msg_a, Receive, Send msg_b, Send msg_c, Receive]"
        "booted 1" msg_c] b
    by blast
qed

section \<open>One round trip\<close>

text \<open>
  C8 fails as stated: with one slot the float message is stored, the head cursor stays
  at 0, and the drain calls the parser not once but never.
\<close>

theorem round_trip_one_slot_counterexample:
  "calls_of (round_trip 1) = Some []"
proof -
  have a: "MCF_init_RXTX 20 10 11 100 1 5 zeroed = Inr (booted 1)"
    by (simp add: booted_def MCF_init_RXTX_def NULL_def Let_def)
  have n: "(20 :: addr) \<noteq> NULL" by (simp add: NULL_def)
  let ?m = "\<lparr>msgID = 7, data = F32 f32_3_5\<rparr>"
  let ?s = "send_effect 20 ?m (booted 1)"
  have b: "MCF_send_f32 20 7 f32_3_5 (booted 1) = Inr ?s"
    by (simp add: MCF_send_variants MCF_send_eq [OF n])
  have "cursors ?s (head (instances ?s 20)) = cursors ?s (tail (instances ?s 20))"
    by (simp add: instances_send_effect cursors_send_effect booted_fields next_head_one)
  from receive_loop_empty [OF this] have c: "MCF_receive 20 ?s = Some (Inr ?s)"
    using n by (simp add: MCF_receive_def)
  show ?thesis
    by (simp add: round_trip_def a b c calls_of_def parsed_send_effect booted_fields)
qed

text \<open>
  C8, amended: on a channel configured by \<open>MCF_init_RXTX\<close> with at least two slots and
  two cursor cells, sending one float message (identifier 7, value 3.5 among them) and
  then draining calls the parser exactly once, on slot 1, which holds that identifier
  and that float; after the drain head equals tail.
\<close>

theorem round_trip_delivers_once:
  assumes "MCF_init_RXTX Instance headp tailp MsgBuf N parser s0 = Inr s1"
    and "headp \<noteq> tailp" and "1 < N"
  shows "\<exists>s2 s3. MCF_send_f32 Instance mid v s1 = Inr s2
           \<and> MCF_receive Instance s2 = Some (Inr s3)
           \<and> parsed s3 = parsed s0 @ [(parser, MsgBuf + 1, \<lparr>msgID = mid, data = F32 v\<rparr>)]
           \<and> cursors s3 headp = cursors s3 tailp"
proof -
  note i = init_RXTX_Inr [OF assms(1)]
  let ?m = "\<lparr>msgID = mid, data = F32 v\<rparr>"
  define s2 where "s2 = send_effect Instance ?m s1"
  have snd: "MCF_send_f32 Instance mid v s1 = Inr s2"
    by (simp add: s2_def MCF_send_variants MCF_send_eq [OF i(1)])
  have nh: "next_head N 0 = 1"
    using assms(3) unfolding next_head_def word_less_def uint_nat
    by (auto simp: not_le) 
  have inst: "instances s2 Instance =
      \<lparr>msgBuf = MsgBuf, head = headp, tail = tailp, msgBufSize = N, msgParser = parser\<rparr>"
    by (simp add: s2_def instances_send_effect i)
  have h2: "cursors s2 headp = 1" and t2: "cursors s2 tailp = 0"
    using assms(2) by (simp_all add: s2_def cursors_send_effect i nh)
  have sl: "slots s2 (MsgBuf + 1) = ?m" by (simp add: s2_def slots_send_effect i nh)
  have r: "in_range s2 Instance"
    using assms(3) i(3) by (simp add: in_range_def inst h2 t2)
  have q: "msgParser (instances s2 Instance) \<noteq> NULL" using i(2) by (simp add: inst)
  have n1: "1 < uint N" using assms(3) by (simp add: word_less_def)
  have p: "pending s2 Instance = 1"
    using n1 by (simp add: pending_def inst h2 t2 distance_def)
  have un: "1 < unat N" using assms(3) by (simp add: word_less_nat_alt)
  have d: "drained s2 Instance = [(parser, MsgBuf + 1, ?m)]"
    using un sl by (simp add: drained_def p slot_after_def inst t2)
  have "MCF_receive Instance s2 = Some (Inr (s2\<lparr>cursors := (cursors s2)(tailp := 1),
      parsed := parsed s0 @ [(parser, MsgBuf + 1, ?m)]\<rparr>))"
    using MCF_receive_drains [OF i(1) q r]
    by (simp add: inst h2 d) (simp add: s2_def parsed_send_effect i)
  then show ?thesis using snd h2 by simp
qed

theorem round_trip_delivers_once_witness:
  "calls_of (round_trip 4) = Some [(5, 101, \<lparr>msgID = 7, data = F32 f32_3_5\<rparr>)]"
proof -
  have a: "MCF_init_RXTX 20 10 11 100 4 5 zeroed = Inr (booted 4)"
    by (simp add: booted_def MCF_init_RXTX_def NULL_def Let_def)
  have b: "(10 :: addr) \<noteq> 11" by simp
  have c: "(1 :: uint16_t) < 4" by simp
  have z: "parsed zeroed = []" by (simp add: zeroed_def)
  from round_trip_delivers_once [OF a b c, of 7 f32_3_5]
  show ?thesis
    by (auto simp: round_trip_def a calls_of_def z)
qed

section \<open>First in, first out\<close>

lemma pos_of_less:
  fixes h N :: uint16_t
  assumes "h < N"
  shows "0 < unat N"
  using assms by (simp add: word_less_nat_alt)

lemma queue_send:
  assumes r: "in_range s p" and ptr: "head (instances s p) \<noteq> tail (instances s p)"
    and room: "Suc (pending s p) < unat (msgBufSize (instances s p))"
  shows "in_range (send_effect p m s) p"
    and "pending (send_effect p m s) p = Suc (pending s p)"
    and "queue (send_effect p m s) p = queue s p @ [m]"
proof -
  define I where "I = instances s p"
  define N where "N = msgBufSize I"
  define h where "h = cursors s (head I)"
  define t where "t = cursors s (tail I)"
  define h' where "h' = next_head N h"
  define s' where "s' = send_effect p m s"
  define d where "d = pending s p"
  from r have hN: "h < N" and tN: "t < N"
    by (simp_all add: in_range_def Let_def I_def N_def h_def t_def)
  have dd: "d = distance N h t" by (simp add: d_def pending_def Let_def I_def N_def h_def t_def)
  have room': "Suc d < unat N" using room by (simp add: d_def N_def I_def)
  have uh': "unat h' = (unat h + 1) mod unat N" unfolding h'_def by (rule unat_next_head [OF hN])
  have inst: "instances s' p = I" by (simp add: s'_def instances_send_effect I_def)
  have ch: "cursors s' (head I) = h'"
    by (simp add: s'_def cursors_send_effect I_def h'_def N_def h_def)
  have ct: "cursors s' (tail I) = t"
    using ptr by (simp add: s'_def cursors_send_effect I_def t_def)
  have sl: "slots s' = (slots s)(msgBuf I + unat h' := m)"
    by (simp add: s'_def slots_send_effect I_def h'_def N_def h_def)
  show "in_range (send_effect p m s) p"
    using in_range_send_effect [OF r] .
  have pd: "pending s' p = Suc d"
    using distance_send [OF hN uh', of t] room'
    by (simp add: pending_def Let_def inst ch ct dd N_def)
  then show "pending (send_effect p m s) p = Suc (pending s p)" by (simp add: s'_def d_def)
  have sa: "slot_after s' p k = slot_after s p k" for k
    by (simp add: slot_after_def Let_def inst ct) (simp add: I_def t_def)
  have sa_eq: "slot_after s p k = msgBuf I + (unat t + k) mod unat N" for k
    by (simp add: slot_after_def Let_def I_def t_def N_def)
  have "(unat t + Suc d) mod unat N = ((unat t + d) mod unat N + 1) mod unat N"
    by (simp add: mod_Suc_eq)
  also have "\<dots> = unat h'" using tail_plus_distance [OF hN, of t] by (simp add: dd uh')
  finally have last: "slot_after s p (Suc d) = msgBuf I + unat h'" by (simp add: sa_eq)
  have old: "slots s' (slot_after s p k) = slots s (slot_after s p k)" if "k \<in> set [1..<Suc d]" for k
  proof -
    from that have "k < Suc d" "Suc d < k + unat N" using room' by auto
    from ring_distinct [OF this, of "unat t"]
    have "slot_after s p k \<noteq> slot_after s p (Suc d)" by (simp add: sa_eq)
    then show ?thesis by (simp add: sl last)
  qed
  have "queue s' p = map (\<lambda>k. slots s' (slot_after s p k)) [1..<Suc (Suc d)]"
    by (simp add: queue_def pd sa del: upt_Suc)
  also have "\<dots> = map (\<lambda>k. slots s' (slot_after s p k)) [1..<Suc d] @ [slots s' (slot_after s p (Suc d))]"
    by simp
  also have "map (\<lambda>k. slots s' (slot_after s p k)) [1..<Suc d] = queue s p"
    unfolding queue_def d_def [symmetric] using old by (simp del: upt_Suc)
  also have "slots s' (slot_after s p (Suc d)) = m" by (simp add: sl last)
  finally show "queue (send_effect p m s) p = queue s p @ [m]" by (simp add: s'_def)
qed

lemma shown_drained: "shown (drained s p) = map (Pair (msgParser (instances s p))) (queue s p)"
  by (simp add: shown_def drained_def queue_def o_def)

lemma shown_append: "shown (xs @ ys) = shown xs @ shown ys"
  by (simp add: shown_def)

lemma drained_state:
  assumes "in_range s p"
    and "s' = s\<lparr>cursors := (cursors s)(tail (instances s p) := cursors s (head (instances s p))),
                  parsed := parsed s @ drained s p\<rparr>"
  shows "in_range s' p" and "pending s' p = 0" and "queue s' p = []"
    and "instances s' = instances s"
proof -
  let ?I = "instances s p"
  from assms(1) have hN: "cursors s (head ?I) < msgBufSize ?I" by (simp add: in_range_def Let_def)
  have pos: "0 < msgBufSize ?I"
    using hN by (meson not_less word_zero_le le_less_trans leD)
  show "instances s' = instances s" by (simp add: assms(2))
  show "in_range s' p" using hN by (simp add: in_range_def Let_def assms(2))
  show p0: "pending s' p = 0" using pos by (simp add: pending_def Let_def assms(2) distance_same)
  show "queue s' p = []" by (simp add: queue_def p0)
qed

lemma run_refines:
  assumes "p \<noteq> NULL" and "msgParser I \<noteq> NULL" and "head I \<noteq> tail I"
    and "instances s p = I" and "in_range s p"
    and "fits (unat (msgBufSize I)) (pending s p) ops"
  shows "\<exists>s'. run p ops s = Some (Inr s')
           \<and> shown (parsed s') = shown (parsed s) @ map (Pair (msgParser I)) (delivered (queue s p) ops)"
  using assms(4-6)
proof (induction ops arbitrary: s)
  case Nil
  then show ?case by simp
next
  case (Cons x ops)
  show ?case
  proof (cases x)
    case (Send m)
    let ?s = "send_effect p m s"
    from Cons.prems(3) have room: "Suc (pending s p) < unat (msgBufSize (instances s p))"
      and rest: "fits (unat (msgBufSize I)) (Suc (pending s p)) ops"
      by (simp_all add: Send Cons.prems(1))
    have ptr: "head (instances s p) \<noteq> tail (instances s p)"
      using assms(3) by (simp add: Cons.prems(1))
    note q = queue_send [OF Cons.prems(2) ptr room, of m]
    have 1: "instances ?s p = I" by (simp add: instances_send_effect Cons.prems(1))
    have 3: "fits (unat (msgBufSize I)) (pending ?s p) ops" using rest by (simp add: q(2))
    from Cons.IH [OF 1 q(1) 3] show ?thesis
      by (simp add: Send MCF_send_eq [OF assms(1)] parsed_send_effect q(3))
  next
    case Receive
    let ?s = "s\<lparr>cursors := (cursors s)(tail (instances s p) := cursors s (head (instances s p))),
                  parsed := parsed s @ drained s p\<rparr>"
    have par: "msgParser (instances s p) \<noteq> NULL" using assms(2) by (simp add: Cons.prems(1))
    have rcv: "MCF_receive p s = Some (Inr ?s)"
      using MCF_receive_drains [OF assms(1) par Cons.prems(2)] .
    note d = drained_state [OF Cons.prems(2) refl]
    have 1: "instances ?s p = I" using d(4) by (simp add: Cons.prems(1))
    have 3: "fits (unat (msgBufSize I)) (pending ?s p) ops"
      using Cons.prems(3) by (simp add: Receive d(2))
    have sh: "shown (parsed ?s) = shown (parsed s) @ map (Pair (msgParser I)) (queue s p)"
      by (simp add: shown_append shown_drained Cons.prems(1))
    from Cons.IH [OF 1 d(1) 3] show ?thesis
      unfolding d(3) sh by (simp add: Receive rcv)
  qed
qed

lemma delivered_sends: "delivered q (map Send ms @ ops) = delivered (q @ ms) ops"
  by (induction ms arbitrary: q) simp_all

lemma fits_sends:
  "fits N n (map Send ms @ ops) = (fits N (n + length ms) ops \<and> (ms \<noteq> [] \<longrightarrow> n + length ms < N))"
  by (induction ms arbitrary: n) auto

text \<open>
  C1: on a channel configured by \<open>MCF_init_RXTX\<close>, with two cursor cells, every
  sequence of sends (of any of the five types) and drains in which never more than
  N - 1 messages are pending runs to its end, and the parser has then been called once
  for each message handed over by a drain, in the order of the sends, each call showing
  the identifier and the union member of its send. In particular N - 1 sends, a drain,
  N - 1 more sends and a drain deliver all 2 (N - 1) messages in order.
\<close>

theorem fifo_order:
  assumes "MCF_init_RXTX Instance headp tailp MsgBuf N parser s0 = Inr s1"
    and "headp \<noteq> tailp" and "1 < N"
  shows "(fits (unat N) 0 ops \<longrightarrow>
           (\<exists>s'. run Instance ops s1 = Some (Inr s')
              \<and> shown (parsed s') = shown (parsed s0) @ map (Pair parser) (delivered [] ops)))
       \<and> (length ms1 = unat N - 1 \<and> length ms2 = unat N - 1 \<longrightarrow>
           (\<exists>s'. run Instance (map Send ms1 @ Receive # map Send ms2 @ [Receive]) s1 = Some (Inr s')
              \<and> shown (parsed s') = shown (parsed s0) @ map (Pair parser) (ms1 @ ms2)))"
proof -
  note i = init_RXTX_Inr [OF assms(1)]
  let ?I = "\<lparr>msgBuf = MsgBuf, head = headp, tail = tailp, msgBufSize = N, msgParser = parser\<rparr>"
  have r: "in_range s1 Instance" using i(3) by (simp add: in_range_def i)
  have p0: "pending s1 Instance = 0" using i(3) by (simp add: pending_def i distance_same)
  have q0: "queue s1 Instance = []" by (simp add: queue_def p0)
  have gen: "\<exists>s'. run Instance ops s1 = Some (Inr s')
              \<and> shown (parsed s') = shown (parsed s0) @ map (Pair parser) (delivered [] ops)"
    if "fits (unat N) 0 ops" for ops
    using run_refines [of Instance ?I s1 ops] that i(1,2) assms(2) r
    by (simp add: i(4,7) p0 q0)
  let ?ops = "map Send ms1 @ Receive # map Send ms2 @ [Receive]"
  have un: "1 < unat N" using assms(3) by (simp add: word_less_nat_alt)
  have "fits (unat N) 0 ?ops" if "length ms1 = unat N - 1 \<and> length ms2 = unat N - 1"
    using that un fits_sends [of "unat N" 0 ms1 "Receive # map Send ms2 @ [Receive]"]
      fits_sends [of "unat N" 0 ms2 "[Receive]"]
    by simp
  moreover have "delivered [] ?ops = ms1 @ ms2"
    using delivered_sends [of "[]" ms1 "Receive # map Send ms2 @ [Receive]"]
      delivered_sends [of "[]" ms2 "[Receive]"]
    by simp
  ultimately show ?thesis using gen [of ops] gen [of ?ops] by simp
qed

theorem fifo_order_witness:
  "(\<exists>s'. run 20 [Send msg_a, Receive, Send msg_b, Send msg_c, Send msg_d, Receive] (booted 4) = Some (Inr s')
       \<and> shown (parsed s') = [(5, msg_a), (5, msg_b), (5, msg_c), (5, msg_d)])
   \<and> (\<exists>s'. run 20 [Send msg_a, Send msg_b, Receive, Send msg_c, Send msg_d, Receive] (booted 3) = Some (Inr s')
       \<and> shown (parsed s') = [(5, msg_a), (5, msg_b), (5, msg_c), (5, msg_d)])"
proof -
  have a: "MCF_init_RXTX 20 10 11 100 4 5 zeroed = Inr (booted 4)"
    by (simp add: booted_def MCF_init_RXTX_def NULL_def Let_def)
  have a': "MCF_init_RXTX 20 10 11 100 3 5 zeroed = Inr (booted 3)"
    by (simp add: booted_def MCF_init_RXTX_def NULL_def Let_def)
  have b: "(10 :: addr) \<noteq> 11" by simp
  have z: "shown (parsed zeroed) = []" by (simp add: zeroed_def shown_def)
  have f: "fits (unat (4 :: uint16_t)) 0 [Send msg_a, Receive, Send msg_b, Send msg_c, Send msg_d, Receive]"
    by simp
  have 1: "\<exists>s'. run 20 [Send msg_a, Receive, Send msg_b, Send msg_c, Send msg_d, Receive] (booted 4) = Some (Inr s')
       \<and> shown (parsed s') = [(5, msg_a), (5, msg_b), (5, msg_c), (5, msg_d)]"
    using fifo_order [OF a b, of "[Send msg_a, Receive, Send msg_b, Send msg_c, Send msg_d, Receive]"] f
    by (simp add: z)
  have 2: "\<exists>s'. run 20 [Send msg_a, Send msg_b, Receive, Send msg_c, Send msg_d, Receive] (booted 3) = Some (Inr s')
       \<and> shown (parsed s') = [(5, msg_a), (5, msg_b), (5, msg_c), (5, msg_d)]"
    using fifo_order [OF a' b, of _ "[msg_a, msg_b]" "[msg_c, msg_d]"]
    by (simp add: z)
  show ?thesis using 1 2 by simp
qed

section \<open>Overrun\<close>

lemma run_append:
  "run p (xs @ ys) s = (case run p xs s of Some (Inr s') \<Rightarrow> run p ys s' | r \<Rightarrow> r)"
  by (induction xs arbitrary: s) (auto split: option.splits sum.splits)

text \<open>
  After any number of sends the head has gone that many places round the ring, and each
  of the last \<open>N\<close> messages sits in the slot it was written to.
\<close>

lemma sends_ring:
  assumes "p \<noteq> NULL" and "instances s p = I" and "head I \<noteq> tail I"
    and "cursors s (head I) < msgBufSize I"
  shows "\<exists>s'. run p (map Send ms) s = Some (Inr s')
           \<and> instances s' = instances s \<and> parsed s' = parsed s
           \<and> cursors s' (tail I) = cursors s (tail I)
           \<and> cursors s' (head I) < msgBufSize I
           \<and> unat (cursors s' (head I)) = (unat (cursors s (head I)) + length ms) mod unat (msgBufSize I)
           \<and> (\<forall>i < length ms. length ms - i \<le> unat (msgBufSize I) \<longrightarrow>
                 slots s' (msgBuf I + (unat (cursors s (head I)) + Suc i) mod unat (msgBufSize I)) = ms ! i)"
proof (induction ms rule: rev_induct)
  case Nil
  show ?case using assms(4) by (simp add: pos_of_less word_less_nat_alt)
next
  case (snoc m ms)
  define N where "N = msgBufSize I"
  define h where "h = cursors s (head I)"
  from snoc obtain s' where run: "run p (map Send ms) s = Some (Inr s')"
    and inst: "instances s' = instances s" and par: "parsed s' = parsed s"
    and tl: "cursors s' (tail I) = cursors s (tail I)"
    and hN: "cursors s' (head I) < N"
    and hd: "unat (cursors s' (head I)) = (unat h + length ms) mod unat N"
    and old: "\<And>i. i < length ms \<Longrightarrow> length ms - i \<le> unat N \<Longrightarrow>
                 slots s' (msgBuf I + (unat h + Suc i) mod unat N) = ms ! i"
    unfolding N_def h_def by blast
  define s'' where "s'' = send_effect p m s'"
  define h'' where "h'' = next_head N (cursors s' (head I))"
  have I': "instances s' p = I" by (simp add: inst assms(2))
  have pos: "0 < N" using hN by (meson not_less word_zero_le le_less_trans leD)
  have upos: "0 < unat N" using pos_of_less [OF hN] .
  have uh'': "unat h'' = (unat h + Suc (length ms)) mod unat N"
    unfolding h''_def unat_next_head [OF hN] hd by (simp add: mod_Suc_eq)
  have run': "run p (map Send (ms @ [m])) s = Some (Inr s'')"
    by (simp add: run_append run MCF_send_eq [OF assms(1)] s''_def)
  have 1: "instances s'' = instances s" by (simp add: s''_def instances_send_effect inst)
  have 2: "parsed s'' = parsed s" by (simp add: s''_def parsed_send_effect par)
  have ch: "cursors s'' = (cursors s')(head I := h'')"
    by (simp add: s''_def cursors_send_effect I' h''_def N_def)
  have 3: "cursors s'' (tail I) = cursors s (tail I)" using assms(3) by (simp add: ch tl)
  have 4: "cursors s'' (head I) < N" using next_head_in_range [OF pos] by (simp add: ch h''_def)
  have 5: "unat (cursors s'' (head I)) = (unat h + length (ms @ [m])) mod unat N"
    by (simp add: ch uh'')
  have sl: "slots s'' = (slots s')(msgBuf I + unat h'' := m)"
    by (simp add: s''_def slots_send_effect I' h''_def N_def)
  have 6: "slots s'' (msgBuf I + (unat h + Suc i) mod unat N) = (ms @ [m]) ! i"
    if i: "i < length (ms @ [m])" and w: "length (ms @ [m]) - i \<le> unat N" for i
  proof (cases "i = length ms")
    case True
    then show ?thesis by (simp add: sl uh'')
  next
    case False
    with i have il: "i < length ms" by simp
    with w have "length ms - i \<le> unat N" by simp
    from old [OF il this] have o: "slots s' (msgBuf I + (unat h + Suc i) mod unat N) = ms ! i" .
    have "Suc i < Suc (length ms)" "Suc (length ms) < Suc i + unat N" using il w by simp_all
    from ring_distinct [OF this, of "unat h"]
    have "(unat h + Suc i) mod unat N \<noteq> unat h''" by (simp add: uh'')
    then show ?thesis using o il by (simp add: sl nth_append)
  qed
  show ?case
    unfolding N_def [symmetric] h_def [symmetric]
    using run' 1 2 3 4 5 6 by blast
qed

lemma distance_after:
  assumes hN: "h < N" and "unat h = (unat t + k) mod unat N"
  shows "distance N h t = k mod unat N"
proof -
  have n: "0 < uint N" using uint_pos [OF hN] .
  have tn: "int (unat t) = uint t" and Nn: "int (unat N) = uint N" and hn: "int (unat h) = uint h"
    by (simp_all only: uint_nat)
  have "uint h = (uint t + int k) mod uint N"
    using assms(2) unfolding hn [symmetric] tn [symmetric] Nn [symmetric]
    by (simp only: zmod_int of_nat_add)
  then have "(uint h - uint t) mod uint N = ((uint t + int k) mod uint N - uint t) mod uint N"
    by simp
  also have "\<dots> = (uint t + int k - uint t) mod uint N" by (simp only: mod_diff_left_eq)
  also have "\<dots> = int k mod uint N" by simp
  also have "\<dots> = int (k mod unat N)" by (simp only: zmod_int Nn)
  finally show ?thesis by (simp add: distance_def)
qed

lemma drop_as_map: "n \<le> length xs \<Longrightarrow> drop n xs = map (\<lambda>k. xs ! (n + k - 1)) [1..<Suc (length xs - n)]"
  by (rule nth_equalityI) (simp_all del: upt_Suc)

text \<open>
  C9 fails as stated: three sends on a channel of three slots overwrite no unread
  message (the three are in slots 1, 2 and 0), and yet the drain delivers none of them.
\<close>

theorem overrun_counterexample:
  "slot_of overrun 101 = Some msg_a \<and> slot_of overrun 102 = Some msg_b
   \<and> slot_of overrun 100 = Some msg_c \<and> calls_of overrun = Some []"
proof -
  have n: "(20 :: addr) \<noteq> NULL" by (simp add: NULL_def)
  define s where "s = send_effect 20 msg_c (send_effect 20 msg_b (send_effect 20 msg_a (booted 3)))"
  have f: "instances s 20 = \<lparr>msgBuf = 100, head = 10, tail = 11, msgBufSize = 3, msgParser = 5\<rparr>"
    "cursors s 10 = 0" "cursors s 11 = 0"
    "slots s 101 = msg_a" "slots s 102 = msg_b" "slots s 100 = msg_c" "parsed s = []"
    by (simp_all add: s_def send_effect_def next_head_def Let_def booted_fields)
  have "cursors s (head (instances s 20)) = cursors s (tail (instances s 20))" by (simp add: f)
  from receive_loop_empty [OF this] have "MCF_receive 20 s = Some (Inr s)"
    using n by (simp add: MCF_receive_def)
  then have ov: "overrun = Some (Inr s)"
    by (simp add: overrun_def MCF_send_eq [OF n] s_def)
  show ?thesis by (simp add: ov slot_of_def calls_of_def f)
qed

text \<open>
  C9, amended: on a channel configured by \<open>MCF_init_RXTX\<close> with two cursor cells, any
  number m of sends before a drain all return without error, and the drain that follows
  calls the parser with the last m mod N messages and no others, in order. So with more
  than N - 1 sends the first m - m mod N messages are lost without any sign, whether
  their slots were overwritten or not.
\<close>

theorem overrun_keeps_last:
  assumes "MCF_init_RXTX Instance headp tailp MsgBuf N parser s0 = Inr s1"
    and "headp \<noteq> tailp"
  shows "\<exists>s2 s3. run Instance (map Send ms) s1 = Some (Inr s2)
           \<and> MCF_receive Instance s2 = Some (Inr s3)
           \<and> shown (parsed s3) = shown (parsed s0) @
                map (Pair parser) (drop (length ms - length ms mod unat N) ms)"
proof -
  note i = init_RXTX_Inr [OF assms(1)]
  let ?I = "\<lparr>msgBuf = MsgBuf, head = headp, tail = tailp, msgBufSize = N, msgParser = parser\<rparr>"
  define n where "n = unat N"
  define r where "r = length ms mod n"
  have npos: "0 < n" using i(3) by (simp add: n_def word_less_nat_alt)
  from sends_ring [OF i(1) i(4), of ms] assms(2) i(3,5)
  obtain s2 where run: "run Instance (map Send ms) s1 = Some (Inr s2)"
    and inst: "instances s2 = instances s1" and par: "parsed s2 = parsed s1"
    and tl: "cursors s2 tailp = 0" and hN: "cursors s2 headp < N"
    and hd: "unat (cursors s2 headp) = length ms mod n"
    and ring: "\<And>i. i < length ms \<Longrightarrow> length ms - i \<le> n \<Longrightarrow>
                 slots s2 (MsgBuf + Suc i mod n) = ms ! i"
    by (auto simp: i(6) n_def)
  have I2: "instances s2 Instance = ?I" by (simp add: inst i(4))
  have rng: "in_range s2 Instance" using hN i(3) by (simp add: in_range_def I2 tl)
  have q: "msgParser (instances s2 Instance) \<noteq> NULL" using i(2) by (simp add: I2)
  have pd: "pending s2 Instance = r"
    using distance_after [OF hN, of 0 "length ms"] hd
    by (simp add: pending_def I2 tl r_def n_def)
  have rl: "r \<le> length ms" unfolding r_def by (rule mod_less_eq_dividend)
  have rn: "r < n" unfolding r_def using npos by simp
  have dv: "n dvd length ms - r" unfolding r_def by (simp add: dvd_minus_mod)
  have "queue s2 Instance = map (\<lambda>k. ms ! (length ms - r + k - 1)) [1..<Suc r]"
    unfolding queue_def pd
  proof (rule map_cong [OF refl])
    fix k assume "k \<in> set [1..<Suc r]"
    then have k: "1 \<le> k" "k \<le> r" by auto
    define j where "j = length ms - r + k - 1"
    have j1: "j < length ms" using k rl by (simp add: j_def)
    have j2: "length ms - j \<le> n" using k rl rn by (simp add: j_def)
    have "Suc j = (length ms - r) + k" using k by (simp add: j_def)
    then have "Suc j mod n = k mod n" using dv by (metis mod_add_left_eq dvd_imp_mod_0 add_0)
    then have "slots s2 (MsgBuf + k mod n) = ms ! j" using ring [OF j1 j2] by simp
    then show "slots s2 (slot_after s2 Instance k) = ms ! (length ms - r + k - 1)"
      by (simp add: slot_after_def I2 tl n_def j_def)
  qed
  also have "\<dots> = drop (length ms - r) ms"
    using drop_as_map [of "length ms - r" ms] rl by simp
  finally have qu: "queue s2 Instance = drop (length ms - r) ms" .
  let ?s3 = "s2\<lparr>cursors := (cursors s2)(tail (instances s2 Instance) :=
                cursors s2 (head (instances s2 Instance))),
              parsed := parsed s2 @ drained s2 Instance\<rparr>"
  have rcv: "MCF_receive Instance s2 = Some (Inr ?s3)"
    using MCF_receive_drains [OF i(1) q rng] .
  have "shown (parsed ?s3) = shown (parsed s0) @ map (Pair parser) (drop (length ms - r) ms)"
    by (simp add: shown_append shown_drained qu I2 par i(7))
  then show ?thesis using run rcv unfolding r_def n_def by blast
qed

theorem overrun_keeps_last_witness:
  "\<exists>s2 s3. run 20 (map Send [msg_a, msg_b, msg_c, msg_d, msg_a]) (booted 3) = Some (Inr s2)
           \<and> MCF_receive 20 s2 = Some (Inr s3)
           \<and> shown (parsed s3) = [(5, msg_d), (5, msg_a)]"
proof -
  have a: "MCF_init_RXTX 20 10 11 100 3 5 zeroed = Inr (booted 3)"
    by (simp add: booted_def MCF_init_RXTX_def NULL_def Let_def)
  have b: "(10 :: addr) \<noteq> 11" by simp
  have z: "shown (parsed zeroed) = []" by (simp add: zeroed_def shown_def)
  show ?thesis
    using overrun_keeps_last [OF a b, of "[msg_a, msg_b, msg_c, msg_d, msg_a]"]
    by (simp add: z)
qed

end
